theory Spec2Isabelle
  imports Main "HOL-Library.List_Lexorder"
begin

section \<open>Python strings, paths and printing\<close>

text \<open>
  A Python \<^verbatim>\<open>str\<close> is a sequence of Unicode code points; a code point is a natural
  number (\<^verbatim>\<open>ord(c)\<close>).  Comparison of strings is the lexicographic order on code
  points, which is the order of \<^theory_text>\<open>List_Lexorder\<close>.  ASCII text is written
  \<open>str ''...''\<close>; the two quote characters are the code points 34 and 39.
\<close>

type_synonym pystr = "nat list"

abbreviation str :: "string \<Rightarrow> pystr" where
  "str s \<equiv> map of_char s"

text \<open>\<^verbatim>\<open>s.endswith(suffix)\<close>.\<close>

definition endswith :: "pystr \<Rightarrow> pystr \<Rightarrow> bool" where
  "endswith s suffix \<longleftrightarrow> drop (length s - length suffix) s = suffix"

text \<open>\<^verbatim>\<open>os.path.join(a, b)\<close> on a POSIX system (the separator is code point 47).\<close>

definition path_join :: "pystr \<Rightarrow> pystr \<Rightarrow> pystr" where
  "path_join a b =
     (if b \<noteq> [] \<and> hd b = 47 then b
      else if a = [] \<or> last a = 47 then a @ b
      else a @ 47 # b)"

text \<open>The decimal text of a non-negative integer, as an f-string prints \<^verbatim>\<open>len(...)\<close>.\<close>

function show_nat :: "nat \<Rightarrow> pystr" where
  "show_nat n = (if n < 10 then [48 + n] else show_nat (n div 10) @ [48 + n mod 10])"
  by pat_completeness auto
termination
  by (relation "measure (\<lambda>n. n)") auto

declare show_nat.simps [simp del]

text \<open>
  The output stream encodes its text as UTF-8 with strict error handling: this is the
  wrapper the script installs, and what the interpreter gives a stream that is UTF-8
  already.  Every code point can be encoded but the surrogates U+D800 to U+DFFF.  A
  Python string holds a lone surrogate for each byte of a file name that is not UTF-8,
  and for an escape such as \<^verbatim>\<open>\ud800\<close> in a JSON document.
\<close>

definition is_surrogate :: "nat \<Rightarrow> bool" where
  "is_surrogate c \<longleftrightarrow> 55296 \<le> c \<and> c \<le> 57343"

definition encodable :: "pystr \<Rightarrow> bool" where
  "encodable s \<longleftrightarrow> list_all (\<lambda>c. \<not> is_surrogate c) s"

definition hex_digit :: "nat \<Rightarrow> nat" where
  "hex_digit d = (if d < 10 then 48 + d else 87 + d)"

definition show_hex4 :: "nat \<Rightarrow> pystr" where
  "show_hex4 c =
     [hex_digit (c div 4096 mod 16), hex_digit (c div 256 mod 16),
      hex_digit (c div 16 mod 16), hex_digit (c mod 16)]"

text \<open>
  The text of the \<^verbatim>\<open>UnicodeEncodeError\<close> that the encoder raises on \<open>s\<close>: it names the
  first run of surrogates, as one character with its escape or as a range of positions.
\<close>

definition encode_error :: "pystr \<Rightarrow> pystr" where
  "encode_error s =
     (let start = length (takeWhile (\<lambda>c. \<not> is_surrogate c) s);
          run = takeWhile is_surrogate (dropWhile (\<lambda>c. \<not> is_surrogate c) s)
      in [39] @ str ''utf-8'' @ [39] @ str '' codec can'' @ [39] @ str ''t encode '' @
         (if length run = 1
          then str ''character '' @ [39, 92, 117] @ show_hex4 (hd run) @ [39] @
               str '' in position '' @ show_nat start
          else str ''characters in position '' @ show_nat start @ str ''-'' @
               show_nat (start + length run - 1)) @
         str '': surrogates not allowed'')"

text \<open>
  \<^verbatim>\<open>print(s)\<close> on the lines printed so far (one element for each call that succeeded):
  \<open>Inr\<close> the lines with \<open>s\<close> added, or \<open>Inl\<close> the text of the exception, in which case
  nothing of \<open>s\<close> is written.
\<close>

definition py_print :: "pystr \<Rightarrow> pystr list \<Rightarrow> pystr + pystr list" where
  "py_print s out = (if encodable s then Inr (out @ [s]) else Inl (encode_error s))"

text \<open>
  A run of statements ends in a pair: what it reached, and the exception that left it
  (\<open>None\<close> when it ran to its end).  \<open>print_lines\<close> is a sequence of calls of
  \<^verbatim>\<open>print\<close>, one for each line; the first call that raises ends it.
\<close>

fun print_lines :: "pystr list \<Rightarrow> pystr list \<Rightarrow> pystr list \<times> pystr option" where
  "print_lines [] out = (out, None)"
| "print_lines (l # ls) out =
     (case py_print l out of Inl e \<Rightarrow> (out, Some e) | Inr out' \<Rightarrow> print_lines ls out')"

section \<open>The key pattern and \<^verbatim>\<open>findall\<close>\<close>

text \<open>
  The class \<^verbatim>\<open>\s\<close> of a \<^verbatim>\<open>str\<close> pattern is the set of Unicode whitespace characters
  (those for which \<^verbatim>\<open>str.isspace\<close> holds).
\<close>

definition is_space :: "nat \<Rightarrow> bool" where
  "is_space c \<longleftrightarrow>
     (9 \<le> c \<and> c \<le> 13) \<or> (28 \<le> c \<and> c \<le> 32) \<or> c = 133 \<or> c = 160 \<or> c = 5760 \<or>
     (8192 \<le> c \<and> c \<le> 8202) \<or> c = 8232 \<or> c = 8233 \<or> c = 8239 \<or> c = 8287 \<or>
     c = 12288"

text \<open>
  The pattern uses four kinds of one-character matchers: a literal character, \<^verbatim>\<open>\s\<close>,
  a positive set \<^verbatim>\<open>[...]\<close> and a negated set \<^verbatim>\<open>[^...]\<close>.
\<close>

datatype cset = Lit nat | Space | AnyOf "nat list" | NoneOf "nat list"

fun accepts :: "cset \<Rightarrow> nat \<Rightarrow> bool" where
  "accepts (Lit a) c = (c = a)"
| "accepts Space c = is_space c"
| "accepts (AnyOf as) c = (c \<in> set as)"
| "accepts (NoneOf as) c = (c \<notin> set as)"

text \<open>
  A pattern is a sequence of items: one character, a greedy \<^verbatim>\<open>*\<close> or \<^verbatim>\<open>+\<close> over a
  one-character matcher, and the two parentheses of the capture group.
\<close>

datatype item = One cset | Star cset | Plus cset | GroupOpen | GroupClose

text \<open>
  The compiled pattern
  \<^verbatim>\<open>\.tr\s*\(\s*["']([^"']+)["']\s*\)\<close>.
  The flag \<^verbatim>\<open>re.MULTILINE\<close> changes only the anchors \<^verbatim>\<open>^\<close> and \<^verbatim>\<open>$\<close>, which the pattern
  does not use.
\<close>

definition pattern :: "item list" where
  "pattern =
     [One (Lit 46), One (Lit 116), One (Lit 114), Star Space, One (Lit 40), Star Space,
      One (AnyOf [34, 39]), GroupOpen, Plus (NoneOf [34, 39]), GroupClose,
      One (AnyOf [34, 39]), Star Space, One (Lit 41)]"

text \<open>
  The backtracking matcher of the \<^verbatim>\<open>re\<close> module, for these items.  \<open>bt p s\<close> matches
  the pattern \<open>p\<close> at the start of the text \<open>s\<close>.  Positions in the text are kept
  as the text that remains from that position on.  The result holds the positions where
  the group opened and closed, and the position where the match ended.  A greedy
  repetition first takes one more character and falls back to the rest of the pattern
  only when that fails.
\<close>

fun bt :: "item list \<Rightarrow> pystr \<Rightarrow> (pystr \<times> pystr \<times> pystr) option" where
  "bt [] s = Some ([], [], s)"
| "bt (One c # p) s =
     (case s of [] \<Rightarrow> None | x # xs \<Rightarrow> if accepts c x then bt p xs else None)"
| "bt (Star c # p) s =
     (case s of
        [] \<Rightarrow> bt p s
      | x # xs \<Rightarrow>
          if accepts c x
          then (case bt (Star c # p) xs of Some m \<Rightarrow> Some m | None \<Rightarrow> bt p s)
          else bt p s)"
| "bt (Plus c # p) s =
     (case s of [] \<Rightarrow> None | x # xs \<Rightarrow> if accepts c x then bt (Star c # p) xs else None)"
| "bt (GroupOpen # p) s = map_option (\<lambda>(go, gc, e). (s, gc, e)) (bt p s)"
| "bt (GroupClose # p) s = map_option (\<lambda>(go, gc, e). (go, s, e)) (bt p s)"

text \<open>
  \<^verbatim>\<open>pattern.findall\<close>: the search tries every position from left to right; after a
  match it goes on from the end of that match, so matches do not overlap.  With one
  group in the pattern the result lists the text of that group.  A match of this pattern
  is never empty (lemma \<open>bt_pattern_shorter\<close>), so the branch for an empty match is
  never taken.
\<close>

function scan :: "item list \<Rightarrow> pystr \<Rightarrow> pystr list" where
  "scan p s =
     (case bt p s of
        Some (go, gc, e) \<Rightarrow>
          take (length go - length gc) go #
            (if length e < length s then scan p e
             else (case s of [] \<Rightarrow> [] | x # xs \<Rightarrow> scan p xs))
      | None \<Rightarrow> (case s of [] \<Rightarrow> [] | x # xs \<Rightarrow> scan p xs))"
  by pat_completeness auto
termination
  by (relation "measure (\<lambda>(p, s). length s)") auto

definition findall :: "pystr \<Rightarrow> pystr list" where
  "findall content = scan pattern content"

section \<open>The source tree and \<^verbatim>\<open>find_tr_keys\<close>\<close>

text \<open>
  The source tree as \<^verbatim>\<open>os.walk\<close> and \<^verbatim>\<open>open\<close> see it.  An entry that is not a
  directory is \<open>File r\<close>, where \<open>r\<close> is what
  \<^verbatim>\<open>open(path, "r", encoding="utf-8").read()\<close> does: \<open>Inr content\<close>, or \<open>Inl e\<close> when it
  raises an exception whose text is \<open>e\<close> (a permission or decoding error).  \<open>Dir es\<close> is
  a directory with its entries in the order the system lists them.  \<open>Unwalked\<close> is a
  directory that \<^verbatim>\<open>os.walk\<close> lists among \<^verbatim>\<open>dirs\<close> and does not enter: a symbolic link
  to a directory, or a directory that cannot be listed (\<^verbatim>\<open>os.walk\<close> ignores that
  error).
\<close>

datatype fsnode = File "pystr + pystr" | Dir "(pystr \<times> fsnode) list" | Unwalked

fun is_dir :: "fsnode \<Rightarrow> bool" where
  "is_dir (File r) = False"
| "is_dir (Dir es) = True"
| "is_dir Unwalked = True"

fun dirs :: "(pystr \<times> fsnode) list \<Rightarrow> pystr list" where
  "dirs [] = []"
| "dirs ((n, d) # es) = (if is_dir d then n # dirs es else dirs es)"

text \<open>The files of a directory; each name comes with the outcome of reading that file.\<close>

fun nondirs :: "(pystr \<times> fsnode) list \<Rightarrow> (pystr \<times> (pystr + pystr)) list" where
  "nondirs [] = []"
| "nondirs ((n, File r) # es) = (n, r) # nondirs es"
| "nondirs ((n, d) # es) = nondirs es"

text \<open>
  \<^verbatim>\<open>os.walk(tp)\<close>, from the top down: the triple of a directory, then the walks of its
  subdirectories in the order of \<^verbatim>\<open>dirs\<close>.  Walking something that cannot be listed
  yields nothing.
\<close>

fun walk :: "pystr \<Rightarrow> fsnode \<Rightarrow> (pystr \<times> pystr list \<times> (pystr \<times> (pystr + pystr)) list) list"
  and walk_dirs :: "pystr \<Rightarrow> (pystr \<times> fsnode) list \<Rightarrow>
    (pystr \<times> pystr list \<times> (pystr \<times> (pystr + pystr)) list) list" where
  "walk tp (Dir es) = (tp, dirs es, nondirs es) # walk_dirs tp es"
| "walk tp (File r) = []"
| "walk tp Unwalked = []"
| "walk_dirs tp [] = []"
| "walk_dirs tp ((n, d) # es) =
     (if is_dir d then walk (path_join tp n) d else []) @ walk_dirs tp es"

text \<open>The inner loop \<^verbatim>\<open>for m in matches: keys.add(m)\<close>.\<close>

fun add_matches :: "pystr list \<Rightarrow> pystr set \<Rightarrow> pystr set" where
  "add_matches [] keys = keys"
| "add_matches (m # ms) keys = add_matches ms (insert m keys)"

definition error_reading :: "pystr \<Rightarrow> pystr \<Rightarrow> pystr" where
  "error_reading path e = str ''Error reading '' @ path @ str '': '' @ e"

text \<open>
  The body of \<^verbatim>\<open>for file in files\<close>.  The state is the set \<^verbatim>\<open>keys\<close> and the lines
  printed so far.  The call of \<^verbatim>\<open>print\<close> stands in the handler of the \<^verbatim>\<open>try\<close>, so an
  exception it raises leaves the loops and the function.
\<close>

fun scan_file ::
  "pystr \<Rightarrow> pystr \<times> (pystr + pystr) \<Rightarrow> pystr set \<times> pystr list
    \<Rightarrow> (pystr set \<times> pystr list) \<times> pystr option" where
  "scan_file root (file, r) (keys, out) =
     (if endswith file (str ''.rs'')
      then (case r of
              Inr content \<Rightarrow> ((add_matches (findall content) keys, out), None)
            | Inl e \<Rightarrow>
                (case py_print (error_reading (path_join root file) e) out of
                   Inr out' \<Rightarrow> ((keys, out'), None)
                 | Inl e' \<Rightarrow> ((keys, out), Some e')))
      else ((keys, out), None))"

fun scan_files ::
  "pystr \<Rightarrow> (pystr \<times> (pystr + pystr)) list \<Rightarrow> pystr set \<times> pystr list
    \<Rightarrow> (pystr set \<times> pystr list) \<times> pystr option" where
  "scan_files root [] st = (st, None)"
| "scan_files root (f # fs) st =
     (case scan_file root f st of
        (st', None) \<Rightarrow> scan_files root fs st'
      | (st', Some e) \<Rightarrow> (st', Some e))"

text \<open>The outer loop \<^verbatim>\<open>for root, dirs, files in os.walk(directory)\<close>.\<close>

fun scan_walk ::
  "(pystr \<times> pystr list \<times> (pystr \<times> (pystr + pystr)) list) list \<Rightarrow> pystr set \<times> pystr list
    \<Rightarrow> (pystr set \<times> pystr list) \<times> pystr option" where
  "scan_walk [] st = (st, None)"
| "scan_walk ((root, ds, files) # ws) st =
     (case scan_files root files st of
        (st', None) \<Rightarrow> scan_walk ws st'
      | (st', Some e) \<Rightarrow> (st', Some e))"

text \<open>
  \<^verbatim>\<open>find_tr_keys\<close>: the first component is what it printed; the second is \<open>Inr\<close> the
  set of keys it returns, or \<open>Inl\<close> the text of the exception that left it.
\<close>

definition find_tr_keys :: "pystr \<Rightarrow> fsnode \<Rightarrow> pystr list \<times> (pystr + pystr set)" where
  "find_tr_keys directory tree =
     (case scan_walk (walk directory tree) ({}, []) of
        ((keys, out), None) \<Rightarrow> (out, Inr keys)
      | ((keys, out), Some e) \<Rightarrow> (out, Inl e))"

section \<open>Localization files and \<^verbatim>\<open>check_langs\<close>\<close>

text \<open>What \<^verbatim>\<open>json.load\<close> returns.  Only the keys of an object are ever read.\<close>

datatype jvalue =
  JObject "(pystr \<times> jvalue) list"
| JArray "jvalue list"
| JString pystr
| JInt int
| JFloat pystr
| JBool bool
| JNull

definition no_attribute_keys :: "string \<Rightarrow> pystr" where
  "no_attribute_keys ty = [39] @ str ty @ [39] @ str '' object has no attribute '' @ [39] @ str ''keys'' @ [39]"

text \<open>
  \<^verbatim>\<open>lang_data.keys()\<close>: the keys of a \<^verbatim>\<open>dict\<close>; on any other value the attribute is
  missing and an \<^verbatim>\<open>AttributeError\<close> is raised.
\<close>

fun dict_keys :: "jvalue \<Rightarrow> pystr + pystr list" where
  "dict_keys (JObject kvs) = Inr (map fst kvs)"
| "dict_keys (JArray vs) = Inl (no_attribute_keys ''list'')"
| "dict_keys (JString s) = Inl (no_attribute_keys ''str'')"
| "dict_keys (JInt i) = Inl (no_attribute_keys ''int'')"
| "dict_keys (JFloat f) = Inl (no_attribute_keys ''float'')"
| "dict_keys (JBool b) = Inl (no_attribute_keys ''bool'')"
| "dict_keys JNull = Inl (no_attribute_keys ''NoneType'')"

text \<open>
  \<^verbatim>\<open>sorted(S)\<close> for a set \<open>S\<close> iterates over the set and sorts what it gets.  The
  order in which a Python set is iterated is not fixed by the language (it changes with
  the hash seed of the process), so it is a parameter \<open>it\<close> of the model.
\<close>

definition py_sorted :: "(pystr set \<Rightarrow> pystr list) \<Rightarrow> pystr set \<Rightarrow> pystr list" where
  "py_sorted it S = sort (it S)"

definition found_line :: "nat \<Rightarrow> pystr" where
  "found_line n = str ''--- [Found '' @ show_nat n @ str '' unique keys in Rust source code] ---''"

definition checking_line :: "pystr \<Rightarrow> pystr" where
  "checking_line lang_file = [10] @ str ''Checking: '' @ lang_file"

definition missing_header :: pystr where
  "missing_header = str ''  '' @ [10060] @ str '' Missing translations (Used in code but NOT in JSON):''"

definition no_missing_line :: pystr where
  "no_missing_line = str ''  '' @ [9989] @ str '' No missing keys.''"

definition orphan_header :: pystr where
  "orphan_header = str ''  '' @ [9888, 65039] @ str '' Orphan keys (In JSON but NOT used in code):''"

definition no_orphan_line :: pystr where
  "no_orphan_line = str ''  '' @ [9989] @ str '' No orphan keys.''"

definition bullet :: "pystr \<Rightarrow> pystr" where
  "bullet k = str ''    - '' @ k"

definition error_checking :: "pystr \<Rightarrow> pystr \<Rightarrow> pystr" where
  "error_checking lang_file e = str ''Error checking '' @ lang_file @ str '': '' @ e"

text \<open>The two set differences and the lines printed for them.\<close>

definition report :: "(pystr set \<Rightarrow> pystr list) \<Rightarrow> pystr set \<Rightarrow> pystr set \<Rightarrow> pystr list" where
  "report it used_keys defined_keys =
     (let missing = used_keys - defined_keys;
          extra = defined_keys - used_keys
      in (if missing \<noteq> {} then missing_header # map bullet (py_sorted it missing)
          else [no_missing_line]) @
         (if extra \<noteq> {} then orphan_header # map bullet (py_sorted it extra)
          else [no_orphan_line]))"

text \<open>The variables of \<^verbatim>\<open>check_langs\<close> that live across the loop, and the output.\<close>

record rstate =
  used_keys :: "pystr set"
  out :: "pystr list"

text \<open>
  An entry of the localization directory is a name with the outcome of opening the file
  and of \<^verbatim>\<open>json.load\<close>: \<open>Inr v\<close> for the value parsed, \<open>Inl e\<close> when either raises
  an exception with text \<open>e\<close>.  \<open>try_body\<close> is the block under \<^verbatim>\<open>try\<close>: it ends
  with the exception of the file, of \<^verbatim>\<open>keys()\<close>, or of the first call of \<^verbatim>\<open>print\<close>
  that cannot encode its line.
\<close>

definition try_body ::
  "(pystr set \<Rightarrow> pystr list) \<Rightarrow> pystr set \<Rightarrow> pystr + jvalue \<Rightarrow> pystr list
    \<Rightarrow> pystr list \<times> pystr option" where
  "try_body it used r printed =
     (case r of
        Inl e \<Rightarrow> (printed, Some e)
      | Inr lang_data \<Rightarrow>
          (case dict_keys lang_data of
             Inl e \<Rightarrow> (printed, Some e)
           | Inr ks \<Rightarrow> print_lines (report it used (set ks)) printed))"

text \<open>
  One turn of the loop over \<^verbatim>\<open>lang_files\<close>.  The first call of \<^verbatim>\<open>print\<close> stands before
  the \<^verbatim>\<open>try\<close>, and the last one in its handler: an exception of either leaves the loop
  and the function.
\<close>

definition check_lang_file ::
  "(pystr set \<Rightarrow> pystr list) \<Rightarrow> pystr \<times> (pystr + jvalue) \<Rightarrow> rstate
    \<Rightarrow> rstate \<times> pystr option" where
  "check_lang_file it f st =
     (case f of (lang_file, r) \<Rightarrow>
        (case py_print (checking_line lang_file) (out st) of
           Inl e \<Rightarrow> (st, Some e)
         | Inr out1 \<Rightarrow>
             (case try_body it (used_keys st) r out1 of
                (out2, None) \<Rightarrow> (st\<lparr>out := out2\<rparr>, None)
              | (out2, Some e) \<Rightarrow>
                  (case py_print (error_checking lang_file e) out2 of
                     Inl e' \<Rightarrow> (st\<lparr>out := out2\<rparr>, Some e')
                   | Inr out3 \<Rightarrow> (st\<lparr>out := out3\<rparr>, None)))))"

fun lang_loop ::
  "(pystr set \<Rightarrow> pystr list) \<Rightarrow> (pystr \<times> (pystr + jvalue)) list \<Rightarrow> rstate
    \<Rightarrow> rstate \<times> pystr option" where
  "lang_loop it [] st = (st, None)"
| "lang_loop it (f # fs) st =
     (case check_lang_file it f st of
        (st', None) \<Rightarrow> lang_loop it fs st'
      | (st', Some e) \<Rightarrow> (st', Some e))"

text \<open>
  What one turn of the loop prints, and the exception that leaves it, for the set
  \<open>used\<close>: the turn on a state with this set and no output yet.
\<close>

definition file_section ::
  "(pystr set \<Rightarrow> pystr list) \<Rightarrow> pystr set \<Rightarrow> pystr \<times> (pystr + jvalue)
    \<Rightarrow> pystr list \<times> pystr option" where
  "file_section it used f =
     (case check_lang_file it f \<lparr>used_keys = used, out = []\<rparr> of (st, x) \<Rightarrow> (out st, x))"

text \<open>
  \<^verbatim>\<open>check_langs(src_dir, lang_dir)\<close>.  \<open>tree\<close> is the source tree at \<open>src_dir\<close>.
  \<open>listing\<close> is what \<^verbatim>\<open>os.listdir(lang_dir)\<close> does: \<open>Inr entries\<close>, with the entries
  in the order the system lists them, or \<open>Inl e\<close> when it raises (the path is not a
  directory, or may not be listed); nothing catches that exception.  The result is the
  output and the exception that left the function, if any.
\<close>

definition check_langs ::
  "(pystr set \<Rightarrow> pystr list) \<Rightarrow> pystr \<Rightarrow> fsnode \<Rightarrow> (pystr + (pystr \<times> (pystr + jvalue)) list)
    \<Rightarrow> pystr list \<times> pystr option" where
  "check_langs it src_dir tree listing =
     (case find_tr_keys src_dir tree of
        (printed, Inl e) \<Rightarrow> (printed, Some e)
      | (printed, Inr keys) \<Rightarrow>
          (case py_print (found_line (card keys)) printed of
             Inl e \<Rightarrow> (printed, Some e)
           | Inr out1 \<Rightarrow>
               (case listing of
                  Inl e \<Rightarrow> (out1, Some e)
                | Inr entries \<Rightarrow>
                    (let lang_files = filter (\<lambda>(f, r). endswith f (str ''.json'')) entries
                     in case lang_loop it lang_files \<lparr>used_keys = keys, out = out1\<rparr> of
                          (st, x) \<Rightarrow> (out st, x)))))"

section \<open>The entry point\<close>

text \<open>
  What the script finds below the current directory: \<open>src_node\<close> is \<open>None\<close> when
  \<^verbatim>\<open>os.path.exists(src)\<close> is false, \<open>lang_node\<close> is \<open>None\<close> when
  \<^verbatim>\<open>os.path.exists(langs)\<close> is false.
\<close>

record world =
  src_node :: "fsnode option"
  lang_node :: "(pystr + (pystr \<times> (pystr + jvalue)) list) option"

record run =
  stdout :: "pystr list"
  exit_status :: nat
  uncaught :: "pystr option"

definition not_found_line :: pystr where
  "not_found_line =
     str ''Error: Could not find '' @ [39] @ str ''src'' @ [39] @ str '' or '' @ [39] @
     str ''assets/lang'' @ [39] @ str '' directory from current path.''"

text \<open>
  The script: \<^verbatim>\<open>sys.exit(1)\<close> ends the process with status 1; an exception that nothing
  catches ends it with status 1 as well, after a traceback on the error stream; running
  off the end of the script gives status 0.
\<close>

definition main :: "(pystr set \<Rightarrow> pystr list) \<Rightarrow> pystr \<Rightarrow> world \<Rightarrow> run" where
  "main it cwd w =
     (let src = path_join cwd (str ''src'');
          langs = path_join (path_join cwd (str ''assets'')) (str ''lang'')
      in case (src_node w, lang_node w) of
           (Some tree, Some listing) \<Rightarrow>
             (case check_langs it src tree listing of
                (printed, None) \<Rightarrow> \<lparr>stdout = printed, exit_status = 0, uncaught = None\<rparr>
              | (printed, Some e) \<Rightarrow> \<lparr>stdout = printed, exit_status = 1, uncaught = Some e\<rparr>)
         | _ \<Rightarrow>
             (case py_print not_found_line [] of
                Inr printed \<Rightarrow> \<lparr>stdout = printed, exit_status = 1, uncaught = None\<rparr>
              | Inl e \<Rightarrow> \<lparr>stdout = [], exit_status = 1, uncaught = Some e\<rparr>))"

section \<open>Specification-side notions\<close>

text \<open>
  The definitions of this section translate no code.  They say, in the words of the
  specification, what the results of the functions above are compared with: which
  iteration orders a set may have, what an occurrence of the key pattern is, which keys
  a search reports in a text, and which files a source tree has.

  The iteration order of a set is some enumeration of its elements, each once.
\<close>

definition iter_ok :: "(pystr set \<Rightarrow> pystr list) \<Rightarrow> bool" where
  "iter_ok it \<longleftrightarrow> (\<forall>S. finite S \<longrightarrow> set (it S) = S \<and> distinct (it S))"

text \<open>
  The words of the pattern, read as a grammar: \<open>tr_call s k r\<close> says that the text \<open>s\<close>
  starts with \<^verbatim>\<open>.tr\<close>, optional whitespace, an opening parenthesis, optional
  whitespace, a quote character, the non-empty quote-free key \<open>k\<close>, a quote character,
  optional whitespace and a closing parenthesis, and that \<open>r\<close> is the text after it.
\<close>

definition is_quote :: "nat \<Rightarrow> bool" where
  "is_quote c \<longleftrightarrow> c = 34 \<or> c = 39"

definition tr_call :: "pystr \<Rightarrow> pystr \<Rightarrow> pystr \<Rightarrow> bool" where
  "tr_call s k r \<longleftrightarrow>
     (\<exists>ws1 ws2 ws3 q1 q2.
        s = str ''.tr'' @ ws1 @ [40] @ ws2 @ [q1] @ k @ [q2] @ ws3 @ [41] @ r \<and>
        list_all is_space ws1 \<and> list_all is_space ws2 \<and> list_all is_space ws3 \<and>
        is_quote q1 \<and> is_quote q2 \<and> k \<noteq> [] \<and> list_all (\<lambda>c. \<not> is_quote c) k)"

text \<open>
  The keys that a left-to-right search for non-overlapping occurrences reports in a text:
  the key of an occurrence at the start; the keys found after that occurrence; and, when
  no occurrence starts here, the keys found from the next character on.
\<close>

inductive found :: "pystr \<Rightarrow> pystr \<Rightarrow> bool" where
  here: "tr_call s k r \<Longrightarrow> found s k"
| after: "tr_call s k' r \<Longrightarrow> found r k \<Longrightarrow> found s k"
| skip: "\<nexists>k' r. tr_call (c # s) k' r \<Longrightarrow> found s k \<Longrightarrow> found (c # s) k"

text \<open>
  \<open>file_at tp tree root name r\<close>: below the directory \<open>tree\<close> at path \<open>tp\<close>, in a chain
  of directories that the walk enters, the directory at path \<open>root\<close> has the file
  \<open>name\<close>, and reading it gives \<open>r\<close>.
\<close>

inductive file_at :: "pystr \<Rightarrow> fsnode \<Rightarrow> pystr \<Rightarrow> pystr \<Rightarrow> pystr + pystr \<Rightarrow> bool" where
  here: "(name, File r) \<in> set es \<Longrightarrow> file_at tp (Dir es) tp name r"
| below: "(n, d) \<in> set es \<Longrightarrow> file_at (path_join tp n) d root name r
         \<Longrightarrow> file_at tp (Dir es) root name r"

section \<open>The matcher on the key pattern\<close>

text \<open>
  Each greedy repetition of the pattern is followed by an item that rejects the
  characters the repetition takes, so the matcher never has to give characters back: a
  match at a position exists exactly when the text there has the shape \<open>tr_call\<close>
  describes, and then the key and the end of the match are determined.
\<close>

lemma accepts_Space: "accepts Space = is_space"
  by (rule ext) simp

lemma accepts_quote: "accepts (AnyOf [34, 39]) = is_quote"
  by (rule ext) (simp add: is_quote_def)

lemma accepts_nonquote: "accepts (NoneOf [34, 39]) = (\<lambda>c. \<not> is_quote c)"
  by (rule ext) (simp add: is_quote_def)

lemma not_space_delims: "\<not> is_space 40" "\<not> is_space 41" "\<not> is_space 34" "\<not> is_space 39"
  by (simp_all add: is_space_def)

lemma space_not_quote: "is_space c \<Longrightarrow> \<not> is_quote c"
  by (auto simp: is_quote_def not_space_delims)

lemma bt_One_Some:
  "bt (One c # p) s = Some m \<longleftrightarrow> (\<exists>x xs. s = x # xs \<and> accepts c x \<and> bt p xs = Some m)"
  by (cases s) auto

lemma bt_Star_append:
  assumes "list_all (accepts c) ws" and "bt (Star c # p) t = Some m"
  shows "bt (Star c # p) (ws @ t) = Some m"
  using assms by (induction ws) auto

lemma bt_Star_drop:
  assumes "\<And>x xs. accepts c x \<Longrightarrow> bt p (x # xs) = None"
  shows "bt (Star c # p) s = bt p (dropWhile (accepts c) s)"
  by (induction s) (auto simp: assms split: option.splits list.splits)

lemma bt_Star_Some:
  assumes "\<And>x xs. accepts c x \<Longrightarrow> bt p (x # xs) = None"
  shows "bt (Star c # p) s = Some m \<longleftrightarrow>
    (\<exists>ws t. s = ws @ t \<and> list_all (accepts c) ws \<and> bt p t = Some m)"
proof
  assume "bt (Star c # p) s = Some m"
  then have "bt p (dropWhile (accepts c) s) = Some m"
    by (simp only: bt_Star_drop [OF assms])
  moreover have "s = takeWhile (accepts c) s @ dropWhile (accepts c) s" by simp
  moreover have "list_all (accepts c) (takeWhile (accepts c) s)"
    by (simp add: list_all_iff) (meson set_takeWhileD)
  ultimately show "\<exists>ws t. s = ws @ t \<and> list_all (accepts c) ws \<and> bt p t = Some m"
    by blast
next
  assume "\<exists>ws t. s = ws @ t \<and> list_all (accepts c) ws \<and> bt p t = Some m"
  then obtain ws t where s: "s = ws @ t" and ws: "list_all (accepts c) ws"
    and t: "bt p t = Some m" by blast
  have "bt (Star c # p) t = Some m"
    using t assms by (cases t) auto
  then show "bt (Star c # p) s = Some m"
    unfolding s using ws by (rule bt_Star_append [rotated])
qed

lemma bt_Plus_Some:
  "bt (Plus c # p) s = Some m \<longleftrightarrow>
     (\<exists>x xs. s = x # xs \<and> accepts c x \<and> bt (Star c # p) xs = Some m)"
  by (cases s) auto

lemma bt_GroupOpen_Some:
  "bt (GroupOpen # p) s = Some m \<longleftrightarrow> (\<exists>go gc e. bt p s = Some (go, gc, e) \<and> m = (s, gc, e))"
  by auto

lemma bt_GroupClose_Some:
  "bt (GroupClose # p) s = Some m \<longleftrightarrow> (\<exists>go gc e. bt p s = Some (go, gc, e) \<and> m = (go, s, e))"
  by auto

lemma bt_close_Some:
  "bt [One (AnyOf [34, 39]), Star Space, One (Lit 41)] s = Some m \<longleftrightarrow>
     (\<exists>q ws e. s = q # ws @ 41 # e \<and> is_quote q \<and> list_all is_space ws \<and> m = ([], [], e))"
proof -
  have star: "bt [Star Space, One (Lit 41)] t = Some m \<longleftrightarrow>
      (\<exists>ws u. t = ws @ u \<and> list_all (accepts Space) ws \<and> bt [One (Lit 41)] u = Some m)" for t
    by (rule bt_Star_Some) (auto simp: not_space_delims)
  have last: "bt [One (Lit 41)] u = Some m \<longleftrightarrow> (\<exists>e. u = 41 # e \<and> m = ([], [], e))" for u
    by (cases u) auto
  show ?thesis
    unfolding bt_One_Some [of "AnyOf [34, 39]"] star last accepts_Space accepts_quote
    by (auto simp del: bt.simps)
qed

lemma bt_group_Some:
  "bt [GroupOpen, Plus (NoneOf [34, 39]), GroupClose,
       One (AnyOf [34, 39]), Star Space, One (Lit 41)] s = Some m \<longleftrightarrow>
     (\<exists>k q ws e. s = k @ q # ws @ 41 # e \<and> k \<noteq> [] \<and> list_all (\<lambda>c. \<not> is_quote c) k \<and>
        is_quote q \<and> list_all is_space ws \<and> m = (s, q # ws @ 41 # e, e))"
  (is "bt (GroupOpen # Plus ?nq # GroupClose # ?tl) s = Some m \<longleftrightarrow> ?rhs")
proof -
  have close: "bt (GroupClose # ?tl) t = Some m' \<longleftrightarrow>
      (\<exists>q ws e. t = q # ws @ 41 # e \<and> is_quote q \<and> list_all is_space ws \<and> m' = ([], t, e))"
    for t m'
    unfolding bt_GroupClose_Some bt_close_Some by auto
  have none: "bt (GroupClose # ?tl) (x # xs) = None" if "accepts ?nq x" for x xs
    using that by simp
  have star: "bt (Star ?nq # GroupClose # ?tl) t = Some m' \<longleftrightarrow>
      (\<exists>ks u. t = ks @ u \<and> list_all (accepts ?nq) ks \<and> bt (GroupClose # ?tl) u = Some m')"
    for t m'
    by (rule bt_Star_Some) (rule none)
  have plus: "bt (Plus ?nq # GroupClose # ?tl) t = Some m' \<longleftrightarrow>
      (\<exists>k q ws e. t = k @ q # ws @ 41 # e \<and> k \<noteq> [] \<and> list_all (\<lambda>c. \<not> is_quote c) k \<and>
        is_quote q \<and> list_all is_space ws \<and> m' = ([], q # ws @ 41 # e, e))" (is "?l \<longleftrightarrow> ?r")
    for t m'
  proof
    assume ?l
    then obtain x ks q ws e where "t = x # ks @ q # ws @ 41 # e" "\<not> is_quote x"
      "list_all (\<lambda>c. \<not> is_quote c) ks" "is_quote q" "list_all is_space ws"
      "m' = ([], q # ws @ 41 # e, e)"
      unfolding bt_Plus_Some star close accepts_nonquote by auto
    then show ?r
      by (intro exI [of _ "x # ks"] exI [of _ q] exI [of _ ws] exI [of _ e]) simp
  next
    assume ?r
    then obtain k q ws e where *: "t = k @ q # ws @ 41 # e" "k \<noteq> []"
      "list_all (\<lambda>c. \<not> is_quote c) k" "is_quote q" "list_all is_space ws"
      "m' = ([], q # ws @ 41 # e, e)" by blast
    then obtain x ks where k: "k = x # ks" by (cases k) auto
    show ?l
      unfolding bt_Plus_Some star close accepts_nonquote
      using * by (auto simp: k)
  qed
  show ?thesis
    unfolding bt_GroupOpen_Some plus by auto
qed

lemma bt_pattern_Some:
  "bt pattern s = Some m \<longleftrightarrow>
     (\<exists>ws1 ws2 ws3 q1 q2 k e.
        s = str ''.tr'' @ ws1 @ [40] @ ws2 @ [q1] @ k @ [q2] @ ws3 @ [41] @ e \<and>
        list_all is_space ws1 \<and> list_all is_space ws2 \<and> list_all is_space ws3 \<and>
        is_quote q1 \<and> is_quote q2 \<and> k \<noteq> [] \<and> list_all (\<lambda>c. \<not> is_quote c) k \<and>
        m = (k @ [q2] @ ws3 @ [41] @ e, [q2] @ ws3 @ [41] @ e, e))"
  (is "?l \<longleftrightarrow> ?r")
proof -
  let ?grp = "[GroupOpen, Plus (NoneOf [34, 39]), GroupClose,
       One (AnyOf [34, 39]), Star Space, One (Lit 41)]"
  have q1: "bt (One (AnyOf [34, 39]) # ?grp) t = Some m \<longleftrightarrow>
      (\<exists>q1 k q2 ws3 e. t = q1 # k @ q2 # ws3 @ 41 # e \<and> is_quote q1 \<and> k \<noteq> [] \<and>
         list_all (\<lambda>c. \<not> is_quote c) k \<and> is_quote q2 \<and> list_all is_space ws3 \<and>
         m = (k @ q2 # ws3 @ 41 # e, q2 # ws3 @ 41 # e, e))" for t
    unfolding bt_One_Some bt_group_Some accepts_quote by auto
  have none2: "bt (One (AnyOf [34, 39]) # ?grp) (x # xs) = None" if "accepts Space x" for x xs
    using that space_not_quote [of x] by (simp add: is_quote_def)
  have ws2: "bt (Star Space # One (AnyOf [34, 39]) # ?grp) t = Some m \<longleftrightarrow>
      (\<exists>ws2 u. t = ws2 @ u \<and> list_all (accepts Space) ws2 \<and>
         bt (One (AnyOf [34, 39]) # ?grp) u = Some m)" for t
    by (rule bt_Star_Some) (rule none2)
  let ?p2 = "Star Space # One (AnyOf [34, 39]) # ?grp"
  have none1: "bt (One (Lit 40) # ?p2) (x # xs) = None" if "accepts Space x" for x xs
    using that not_space_delims by auto
  have ws1: "bt (Star Space # One (Lit 40) # ?p2) t = Some m \<longleftrightarrow>
      (\<exists>ws1 u. t = ws1 @ u \<and> list_all (accepts Space) ws1 \<and>
         bt (One (Lit 40) # ?p2) u = Some m)" for t
    by (rule bt_Star_Some) (rule none1)
  have paren: "bt (One (Lit 40) # ?p2) u = Some m \<longleftrightarrow> (\<exists>v. u = 40 # v \<and> bt ?p2 v = Some m)" for u
    unfolding bt_One_Some by auto
  have head: "bt pattern s = Some m \<longleftrightarrow>
      (\<exists>v. s = 46 # 116 # 114 # v \<and> bt (Star Space # One (Lit 40) # ?p2) v = Some m)"
    unfolding pattern_def bt_One_Some by auto
  show ?thesis
  proof
    assume ?l
    then obtain ws1 ws2 q1 k q2 ws3 e where
      "s = 46 # 116 # 114 # ws1 @ 40 # ws2 @ q1 # k @ q2 # ws3 @ 41 # e"
      "list_all is_space ws1" "list_all is_space ws2" "is_quote q1" "k \<noteq> []"
      "list_all (\<lambda>c. \<not> is_quote c) k" "is_quote q2" "list_all is_space ws3"
      "m = (k @ q2 # ws3 @ 41 # e, q2 # ws3 @ 41 # e, e)"
      unfolding head ws1 paren ws2 q1 accepts_Space by auto
    then show ?r
      by (intro exI [of _ ws1] exI [of _ ws2] exI [of _ ws3] exI [of _ q1] exI [of _ q2]
          exI [of _ k] exI [of _ e]) simp
  next
    assume ?r
    then obtain ws1 ws2 ws3 q1 q2 k e where *:
      "s = str ''.tr'' @ ws1 @ [40] @ ws2 @ [q1] @ k @ [q2] @ ws3 @ [41] @ e"
      "list_all is_space ws1" "list_all is_space ws2" "list_all is_space ws3"
      "is_quote q1" "is_quote q2" "k \<noteq> []" "list_all (\<lambda>c. \<not> is_quote c) k"
      "m = (k @ [q2] @ ws3 @ [41] @ e, [q2] @ ws3 @ [41] @ e, e)" by blast
    have "bt (One (AnyOf [34, 39]) # ?grp) (q1 # k @ q2 # ws3 @ 41 # e) = Some m"
      unfolding q1 using * by auto
    then have "bt ?p2 (ws2 @ q1 # k @ q2 # ws3 @ 41 # e) = Some m"
      unfolding ws2 accepts_Space using * by blast
    then have "bt (One (Lit 40) # ?p2) (40 # ws2 @ q1 # k @ q2 # ws3 @ 41 # e) = Some m"
      unfolding paren by blast
    then have "bt (Star Space # One (Lit 40) # ?p2)
        (ws1 @ 40 # ws2 @ q1 # k @ q2 # ws3 @ 41 # e) = Some m"
      unfolding ws1 accepts_Space using * by blast
    then show ?l
      unfolding head using *(1) by simp
  qed
qed

lemma bt_pattern_tr_call:
  "tr_call s k r \<longleftrightarrow>
     (\<exists>go gc. bt pattern s = Some (go, gc, r) \<and> take (length go - length gc) go = k)"
  (is "?l \<longleftrightarrow> ?r")
proof
  assume ?l
  then obtain ws1 ws2 ws3 q1 q2 where *:
    "s = str ''.tr'' @ ws1 @ [40] @ ws2 @ [q1] @ k @ [q2] @ ws3 @ [41] @ r"
    "list_all is_space ws1" "list_all is_space ws2" "list_all is_space ws3"
    "is_quote q1" "is_quote q2" "k \<noteq> []" "list_all (\<lambda>c. \<not> is_quote c) k"
    unfolding tr_call_def by blast
  then have "bt pattern s = Some (k @ [q2] @ ws3 @ [41] @ r, [q2] @ ws3 @ [41] @ r, r)"
    unfolding bt_pattern_Some by blast
  then show ?r by simp
next
  assume ?r
  then obtain go gc where m: "bt pattern s = Some (go, gc, r)"
    and k: "take (length go - length gc) go = k" by blast
  from m obtain ws1 ws2 ws3 q1 q2 k' where *:
    "s = str ''.tr'' @ ws1 @ [40] @ ws2 @ [q1] @ k' @ [q2] @ ws3 @ [41] @ r"
    "list_all is_space ws1" "list_all is_space ws2" "list_all is_space ws3"
    "is_quote q1" "is_quote q2" "k' \<noteq> []" "list_all (\<lambda>c. \<not> is_quote c) k'"
    "go = k' @ [q2] @ ws3 @ [41] @ r" "gc = [q2] @ ws3 @ [41] @ r"
    unfolding bt_pattern_Some by blast
  from k have "k = k'" by (simp add: *)
  with * show ?l unfolding tr_call_def by blast
qed

lemma tr_call_functional:
  assumes "tr_call s k r" and "tr_call s k' r'"
  shows "k' = k \<and> r' = r"
  using assms unfolding bt_pattern_tr_call by auto

lemma tr_call_shorter: "tr_call s k r \<Longrightarrow> length r < length s"
  unfolding tr_call_def by auto

lemma bt_pattern_shorter: "bt pattern s = Some (go, gc, e) \<Longrightarrow> length e < length s"
  unfolding bt_pattern_Some by auto

lemma bt_pattern_None: "bt pattern s = None \<longleftrightarrow> (\<nexists>k r. tr_call s k r)"
  unfolding bt_pattern_tr_call by (cases "bt pattern s") auto

lemma findall_match:
  assumes "tr_call s k r"
  shows "findall s = k # findall r"
proof -
  from assms obtain go gc where m: "bt pattern s = Some (go, gc, r)"
    and k: "take (length go - length gc) go = k"
    unfolding bt_pattern_tr_call by blast
  from m have "length r < length s" by (rule bt_pattern_shorter)
  then show ?thesis
    unfolding findall_def by (subst scan.simps) (simp add: m k)
qed

lemma findall_no_match:
  assumes "\<nexists>k r. tr_call (c # s) k r"
  shows "findall (c # s) = findall s"
proof -
  from assms have "bt pattern (c # s) = None" by (simp add: bt_pattern_None)
  then show ?thesis
    unfolding findall_def by (subst scan.simps) simp
qed

lemma findall_Nil: "findall [] = []"
proof -
  have "bt pattern [] = None" by (simp add: pattern_def)
  then show ?thesis unfolding findall_def by (subst scan.simps) simp
qed

lemma found_Nil: "\<not> found [] k"
proof
  assume "found [] k"
  then show False
    by (induction "[] :: pystr" k rule: found.induct) (auto dest: tr_call_shorter)
qed

lemma found_findall: "found s k \<Longrightarrow> k \<in> set (findall s)"
proof (induction rule: found.induct)
  case (here s k r)
  then show ?case by (simp add: findall_match)
next
  case (after s k' r k)
  then show ?case by (simp add: findall_match)
next
  case (skip c s k)
  then show ?case by (simp add: findall_no_match)
qed

lemma findall_found: "k \<in> set (findall s) \<Longrightarrow> found s k"
proof (induction s arbitrary: k rule: length_induct)
  case (1 s)
  show ?case
  proof (cases "\<exists>k' r. tr_call s k' r")
    case True
    then obtain k' r where c: "tr_call s k' r" by blast
    then have "length r < length s" by (rule tr_call_shorter)
    with 1 c show ?thesis
      by (auto simp: findall_match intro: found.here found.after)
  next
    case False
    show ?thesis
    proof (cases s)
      case Nil
      with 1 show ?thesis by (simp add: findall_Nil)
    next
      case (Cons c t)
      with False 1 show ?thesis
        by (auto simp: findall_no_match intro: found.skip)
    qed
  qed
qed

lemma set_findall: "set (findall s) = {k. found s k}"
  using found_findall findall_found by blast

text \<open>
  A match starts with a full stop, so text without one before a call (a plain receiver)
  is skipped; the newline is whitespace, so a call may span lines.
\<close>

lemma is_space_newline: "is_space 10"
  by (simp add: is_space_def)

lemma tr_call_starts_with_dot: "tr_call (c # s) k r \<Longrightarrow> c = 46"
  unfolding tr_call_def by auto

lemma findall_skip_prefix: "46 \<notin> set pre \<Longrightarrow> findall (pre @ s) = findall s"
proof (induction pre)
  case Nil
  then show ?case by simp
next
  case (Cons c pre)
  then have "\<nexists>k r. tr_call (c # pre @ s) k r"
    by (auto dest: tr_call_starts_with_dot)
  then have "findall (c # pre @ s) = findall (pre @ s)"
    by (rule findall_no_match)
  with Cons show ?case by simp
qed

text \<open>
  What the matcher does on a text that starts like a call and goes on, after the
  whitespace that follows the closing quote, with the character \<open>c\<close>.
\<close>

lemma dropWhile_all: "list_all P ws \<Longrightarrow> dropWhile P (ws @ t) = dropWhile P t"
  by (induction ws) auto

lemma bt_Star_skip:
  assumes "\<And>x xs. accepts c x \<Longrightarrow> bt p (x # xs) = None"
    and "list_all (accepts c) ws"
    and "\<not> accepts c y"
  shows "bt (Star c # p) (ws @ y # t) = bt p (y # t)"
proof -
  have "dropWhile (accepts c) (ws @ y # t) = y # t"
    using assms(2,3) by (simp add: dropWhile_all)
  then show ?thesis
    by (simp only: bt_Star_drop [OF assms(1)])
qed

lemma bt_call_prefix:
  assumes ws: "list_all is_space ws1" "list_all is_space ws2" "list_all is_space ws3"
    and q: "is_quote q1" "is_quote q2"
    and k: "k \<noteq> []" "list_all (\<lambda>c. \<not> is_quote c) k"
    and c: "\<not> is_space c"
  shows "bt pattern (str ''.tr'' @ ws1 @ [40] @ ws2 @ [q1] @ k @ [q2] @ ws3 @ c # rest) =
     (if c = 41
      then Some (k @ [q2] @ ws3 @ c # rest, [q2] @ ws3 @ c # rest, rest)
      else None)"
proof -
  let ?close = "[One (AnyOf [34, 39]), Star Space, One (Lit 41)]"
  let ?grp = "GroupOpen # Plus (NoneOf [34, 39]) # GroupClose # ?close"
  let ?p2 = "Star Space # One (AnyOf [34, 39]) # ?grp"
  let ?t3 = "c # rest"
  let ?t2 = "q2 # ws3 @ ?t3"
  have d3: "bt [Star Space, One (Lit 41)] (ws3 @ ?t3) = bt [One (Lit 41)] ?t3"
    by (rule bt_Star_skip) (use not_space_delims in \<open>auto simp: accepts_Space ws c\<close>)
  have close: "bt ?close ?t2 = (if c = 41 then Some ([], [], rest) else None)"
    using q(2) by (simp add: d3 is_quote_def del: bt.simps(3))
  obtain x ks where kx: "k = x # ks" using k by (cases k) auto
  have nq: "\<not> is_quote x" "list_all (\<lambda>c. \<not> is_quote c) ks" using k by (auto simp: kx)
  have dk: "bt (Star (NoneOf [34, 39]) # GroupClose # ?close) (ks @ ?t2) =
      bt (GroupClose # ?close) ?t2"
    by (rule bt_Star_skip) (use nq q in \<open>auto simp: accepts_nonquote is_quote_def\<close>)
  have grp: "bt ?grp (k @ ?t2) = (if c = 41 then Some (k @ ?t2, ?t2, rest) else None)"
  proof -
    have "bt (GroupClose # ?close) ?t2 = (if c = 41 then Some ([], ?t2, rest) else None)"
      unfolding bt.simps(6) close by simp
    then have "bt (Plus (NoneOf [34, 39]) # GroupClose # ?close) (k @ ?t2) =
        (if c = 41 then Some ([], ?t2, rest) else None)"
      unfolding kx append_Cons bt.simps(4) list.case dk
      using nq(1) by (simp add: is_quote_def del: bt.simps)
    then show ?thesis
      unfolding bt.simps(5) by simp
  qed
  have d2: "bt ?p2 (ws2 @ q1 # k @ ?t2) = bt (One (AnyOf [34, 39]) # ?grp) (q1 # k @ ?t2)"
    by (rule bt_Star_skip)
      (use q space_not_quote in \<open>auto simp: accepts_Space ws is_quote_def\<close>)
  have q1: "bt (One (AnyOf [34, 39]) # ?grp) (q1 # k @ ?t2) = bt ?grp (k @ ?t2)"
    using q(1) by (simp add: is_quote_def del: bt.simps(3,4,5,6))
  have d1: "bt (Star Space # One (Lit 40) # ?p2) (ws1 @ 40 # ws2 @ q1 # k @ ?t2) =
      bt (One (Lit 40) # ?p2) (40 # ws2 @ q1 # k @ ?t2)"
    by (rule bt_Star_skip) (use not_space_delims in \<open>auto simp: accepts_Space ws\<close>)
  have paren: "bt (One (Lit 40) # ?p2) (40 # ws2 @ q1 # k @ ?t2) = bt ?p2 (ws2 @ q1 # k @ ?t2)"
    by (simp del: bt.simps(3,4,5,6))
  have "bt pattern (46 # 116 # 114 # ws1 @ 40 # ws2 @ q1 # k @ ?t2) =
      bt (Star Space # One (Lit 40) # ?p2) (ws1 @ 40 # ws2 @ q1 # k @ ?t2)"
    unfolding pattern_def by (simp del: bt.simps(3,4,5,6))
  then show ?thesis
    unfolding d1 paren d2 q1 grp by simp
qed

section \<open>Printing\<close>

text \<open>
  The lines with fixed text, the decimal numbers and the text of an encoding error hold
  no surrogate; a line built around a name, a key or an error text can be encoded
  exactly when that part can.  A sequence of calls of \<^verbatim>\<open>print\<close> writes the lines up
  to the first one that cannot be encoded.
\<close>

lemma encodable_Nil: "encodable []"
  by (simp add: encodable_def)

lemma encodable_Cons: "encodable (c # s) \<longleftrightarrow> \<not> is_surrogate c \<and> encodable s"
  by (simp add: encodable_def)

lemma encodable_append: "encodable (a @ b) \<longleftrightarrow> encodable a \<and> encodable b"
  by (simp add: encodable_def)

lemma encodable_ascii: "list_all (\<lambda>c. c < 128) s \<Longrightarrow> encodable s"
  by (induction s) (auto simp: encodable_def is_surrogate_def)

lemma show_nat_digit: "n < 10 \<Longrightarrow> show_nat n = [48 + n]"
  by (subst show_nat.simps) simp

lemma encodable_show_nat: "encodable (show_nat n)"
proof (induction n rule: show_nat.induct)
  case (1 n)
  show ?case
  proof (cases "n < 10")
    case True
    then show ?thesis
      by (subst show_nat.simps) (simp add: encodable_def is_surrogate_def)
  next
    case False
    have "n mod 10 < 10" by simp
    then have "\<not> is_surrogate (48 + n mod 10)" by (simp add: is_surrogate_def)
    with False 1 show ?thesis
      by (subst show_nat.simps) (simp add: encodable_append encodable_Cons encodable_Nil)
  qed
qed

lemma encodable_hex_digit: "d < 16 \<Longrightarrow> \<not> is_surrogate (hex_digit d)"
  by (simp add: hex_digit_def is_surrogate_def)

lemma encodable_show_hex4: "encodable (show_hex4 c)"
  by (simp add: show_hex4_def encodable_Cons encodable_Nil encodable_hex_digit)

lemma encodable_encode_error: "encodable (encode_error s)"
  by (simp add: encode_error_def Let_def encodable_append encodable_Cons encodable_Nil
      encodable_show_nat encodable_show_hex4 is_surrogate_def)

lemma encodable_found_line: "encodable (found_line n)"
  by (simp add: found_line_def encodable_append encodable_Cons encodable_Nil
      encodable_show_nat is_surrogate_def)

lemma encodable_not_found_line: "encodable not_found_line"
  by (simp add: not_found_line_def encodable_def is_surrogate_def)

lemma encodable_fixed_lines:
  "encodable missing_header" "encodable no_missing_line"
  "encodable orphan_header" "encodable no_orphan_line"
  by (simp_all add: missing_header_def no_missing_line_def orphan_header_def
      no_orphan_line_def encodable_def is_surrogate_def)

lemma encodable_bullet: "encodable (bullet k) \<longleftrightarrow> encodable k"
  by (simp add: bullet_def encodable_def is_surrogate_def)

lemma encodable_checking_line: "encodable (checking_line f) \<longleftrightarrow> encodable f"
  by (simp add: checking_line_def encodable_def is_surrogate_def)

lemma encodable_error_checking:
  "encodable (error_checking f e) \<longleftrightarrow> encodable f \<and> encodable e"
  by (simp add: error_checking_def encodable_def is_surrogate_def)

lemma encodable_error_reading:
  "encodable (error_reading p e) \<longleftrightarrow> encodable p \<and> encodable e"
  by (simp add: error_reading_def encodable_def is_surrogate_def)

lemma print_lines_eq:
  "print_lines ls printed =
     (printed @ takeWhile encodable ls,
      case dropWhile encodable ls of [] \<Rightarrow> None | l # ls' \<Rightarrow> Some (encode_error l))"
  by (induction ls arbitrary: printed) (simp_all add: py_print_def)

lemma print_lines_all:
  "list_all encodable ls \<Longrightarrow> print_lines ls printed = (printed @ ls, None)"
  by (induction ls arbitrary: printed) (simp_all add: py_print_def)

section \<open>The walk and the extraction loops\<close>

text \<open>
  The loops of \<open>find_tr_keys\<close> only ever add to the set of keys and to the output.
  They run to their end when the error line of every unreadable file with the extension
  can be encoded, and an exception leaves them when one of these lines cannot.  The
  triples of the walk list exactly the files that \<open>file_at\<close> describes.
\<close>

lemma add_matches_eq: "add_matches ms keys = keys \<union> set ms"
  by (induction ms arbitrary: keys) auto

lemma scan_file_eq:
  "scan_file root (n, r) (keys, printed) =
     (if endswith n (str ''.rs'')
      then (case r of
              Inr c \<Rightarrow> ((keys \<union> set (findall c), printed), None)
            | Inl e \<Rightarrow>
                if encodable (error_reading (path_join root n) e)
                then ((keys, printed @ [error_reading (path_join root n) e]), None)
                else ((keys, printed), Some (encode_error (error_reading (path_join root n) e))))
      else ((keys, printed), None))"
  by (simp add: add_matches_eq py_print_def split: sum.splits)

lemma scan_files_returns:
  assumes "\<And>n e. (n, Inl e) \<in> set fs \<Longrightarrow> endswith n (str ''.rs'') \<Longrightarrow>
      encodable (error_reading (path_join root n) e)"
  shows "\<exists>printed'. scan_files root fs (keys, printed) =
      ((keys \<union> {k. \<exists>n c. (n, Inr c) \<in> set fs \<and> endswith n (str ''.rs'') \<and>
          k \<in> set (findall c)}, printed'), None) \<and>
      set printed' = set printed \<union>
        {l. \<exists>n e. (n, Inl e) \<in> set fs \<and> endswith n (str ''.rs'') \<and>
           l = error_reading (path_join root n) e}"
  using assms
proof (induction fs arbitrary: keys printed)
  case Nil
  then show ?case by simp
next
  case (Cons f fs)
  obtain n r where f: "f = (n, r)" by (cases f)
  have ok: "encodable (error_reading (path_join root n) e)"
    if "r = Inl e" "endswith n (str ''.rs'')" for e
    using Cons.prems [of n e] that by (simp add: f)
  have "\<exists>keys1 printed1. scan_file root (n, r) (keys, printed) = ((keys1, printed1), None) \<and>
      keys1 = keys \<union> {k. \<exists>c. r = Inr c \<and> endswith n (str ''.rs'') \<and> k \<in> set (findall c)} \<and>
      set printed1 = set printed \<union>
        {l. \<exists>e. r = Inl e \<and> endswith n (str ''.rs'') \<and> l = error_reading (path_join root n) e}"
  proof (cases r)
    case (Inl e)
    show ?thesis
    proof (cases "endswith n (str ''.rs'')")
      case True
      with ok [OF Inl] have "encodable (error_reading (path_join root n) e)" .
      with True Inl show ?thesis
        unfolding scan_file_eq by auto
    next
      case False
      with Inl show ?thesis unfolding scan_file_eq by auto
    qed
  next
    case (Inr c)
    then show ?thesis unfolding scan_file_eq by auto
  qed
  then obtain keys1 printed1 where step: "scan_file root (n, r) (keys, printed) = ((keys1, printed1), None)"
    and keys1: "keys1 = keys \<union> {k. \<exists>c. r = Inr c \<and> endswith n (str ''.rs'') \<and> k \<in> set (findall c)}"
    and printed1: "set printed1 = set printed \<union>
      {l. \<exists>e. r = Inl e \<and> endswith n (str ''.rs'') \<and> l = error_reading (path_join root n) e}"
    by blast
  have "\<exists>printed'. scan_files root fs (keys1, printed1) =
      ((keys1 \<union> {k. \<exists>n c. (n, Inr c) \<in> set fs \<and> endswith n (str ''.rs'') \<and>
          k \<in> set (findall c)}, printed'), None) \<and>
      set printed' = set printed1 \<union>
        {l. \<exists>n e. (n, Inl e) \<in> set fs \<and> endswith n (str ''.rs'') \<and>
           l = error_reading (path_join root n) e}"
    by (rule Cons.IH) (use Cons.prems in auto)
  then obtain printed' where rest: "scan_files root fs (keys1, printed1) =
      ((keys1 \<union> {k. \<exists>n c. (n, Inr c) \<in> set fs \<and> endswith n (str ''.rs'') \<and>
          k \<in> set (findall c)}, printed'), None)"
    and printed': "set printed' = set printed1 \<union>
        {l. \<exists>n e. (n, Inl e) \<in> set fs \<and> endswith n (str ''.rs'') \<and>
           l = error_reading (path_join root n) e}"
    by blast
  have k: "keys1 \<union> {k. \<exists>n c. (n, Inr c) \<in> set fs \<and> endswith n (str ''.rs'') \<and>
          k \<in> set (findall c)} =
      keys \<union> {k. \<exists>n' c. (n', Inr c) \<in> set (f # fs) \<and> endswith n' (str ''.rs'') \<and>
          k \<in> set (findall c)}"
    unfolding keys1 f by auto
  have p: "set printed' = set printed \<union>
        {l. \<exists>n' e. (n', Inl e) \<in> set (f # fs) \<and> endswith n' (str ''.rs'') \<and>
           l = error_reading (path_join root n') e}"
    unfolding printed' printed1 f by auto
  have "scan_files root (f # fs) (keys, printed) =
      ((keys \<union> {k. \<exists>n' c. (n', Inr c) \<in> set (f # fs) \<and> endswith n' (str ''.rs'') \<and>
          k \<in> set (findall c)}, printed'), None)"
    unfolding f scan_files.simps step using rest k by (simp add: f)
  with p show ?case by blast
qed





lemma scan_walk_returns:
  assumes "\<And>root ds fs n e. (root, ds, fs) \<in> set ws \<Longrightarrow> (n, Inl e) \<in> set fs \<Longrightarrow>
      endswith n (str ''.rs'') \<Longrightarrow> encodable (error_reading (path_join root n) e)"
  shows "\<exists>printed'. scan_walk ws (keys, printed) =
      ((keys \<union> {k. \<exists>root ds fs n c. (root, ds, fs) \<in> set ws \<and> (n, Inr c) \<in> set fs \<and>
          endswith n (str ''.rs'') \<and> k \<in> set (findall c)}, printed'), None) \<and>
      set printed' = set printed \<union>
        {l. \<exists>root ds fs n e. (root, ds, fs) \<in> set ws \<and> (n, Inl e) \<in> set fs \<and>
           endswith n (str ''.rs'') \<and> l = error_reading (path_join root n) e}"
  using assms
proof (induction ws arbitrary: keys printed)
  case Nil
  then show ?case by simp
next
  case (Cons w ws)
  obtain root ds fs where w: "w = (root, ds, fs)" by (cases w)
  have "\<exists>printed1. scan_files root fs (keys, printed) =
      ((keys \<union> {k. \<exists>n c. (n, Inr c) \<in> set fs \<and> endswith n (str ''.rs'') \<and>
          k \<in> set (findall c)}, printed1), None) \<and>
      set printed1 = set printed \<union>
        {l. \<exists>n e. (n, Inl e) \<in> set fs \<and> endswith n (str ''.rs'') \<and>
           l = error_reading (path_join root n) e}"
  proof (rule scan_files_returns)
    fix n e
    assume "(n, Inl e) \<in> set fs" "endswith n (str ''.rs'')"
    with Cons.prems [of root ds fs n e] show "encodable (error_reading (path_join root n) e)"
      by (simp add: w)
  qed
  then obtain printed1 where step: "scan_files root fs (keys, printed) =
      ((keys \<union> {k. \<exists>n c. (n, Inr c) \<in> set fs \<and> endswith n (str ''.rs'') \<and>
          k \<in> set (findall c)}, printed1), None)"
    and printed1: "set printed1 = set printed \<union>
        {l. \<exists>n e. (n, Inl e) \<in> set fs \<and> endswith n (str ''.rs'') \<and>
           l = error_reading (path_join root n) e}"
    by blast
  let ?keys1 = "keys \<union> {k. \<exists>n c. (n, Inr c) \<in> set fs \<and> endswith n (str ''.rs'') \<and>
          k \<in> set (findall c)}"
  have "\<exists>printed'. scan_walk ws (?keys1, printed1) =
      ((?keys1 \<union> {k. \<exists>root ds fs n c. (root, ds, fs) \<in> set ws \<and> (n, Inr c) \<in> set fs \<and>
          endswith n (str ''.rs'') \<and> k \<in> set (findall c)}, printed'), None) \<and>
      set printed' = set printed1 \<union>
        {l. \<exists>root ds fs n e. (root, ds, fs) \<in> set ws \<and> (n, Inl e) \<in> set fs \<and>
           endswith n (str ''.rs'') \<and> l = error_reading (path_join root n) e}"
  proof (rule Cons.IH)
    fix root' ds' fs' n e
    assume "(root', ds', fs') \<in> set ws" "(n, Inl e) \<in> set fs'" "endswith n (str ''.rs'')"
    with Cons.prems [of root' ds' fs' n e] show "encodable (error_reading (path_join root' n) e)"
      by simp
  qed
  then obtain printed' where rest: "scan_walk ws (?keys1, printed1) =
      ((?keys1 \<union> {k. \<exists>root ds fs n c. (root, ds, fs) \<in> set ws \<and> (n, Inr c) \<in> set fs \<and>
          endswith n (str ''.rs'') \<and> k \<in> set (findall c)}, printed'), None)"
    and printed': "set printed' = set printed1 \<union>
        {l. \<exists>root ds fs n e. (root, ds, fs) \<in> set ws \<and> (n, Inl e) \<in> set fs \<and>
           endswith n (str ''.rs'') \<and> l = error_reading (path_join root n) e}"
    by blast
  have k: "?keys1 \<union> {k. \<exists>root ds fs n c. (root, ds, fs) \<in> set ws \<and> (n, Inr c) \<in> set fs \<and>
          endswith n (str ''.rs'') \<and> k \<in> set (findall c)} =
      keys \<union> {k. \<exists>root ds fs n c. (root, ds, fs) \<in> set (w # ws) \<and> (n, Inr c) \<in> set fs \<and>
          endswith n (str ''.rs'') \<and> k \<in> set (findall c)}"
    unfolding w by simp blast
  have p: "set printed' = set printed \<union>
        {l. \<exists>root ds fs n e. (root, ds, fs) \<in> set (w # ws) \<and> (n, Inl e) \<in> set fs \<and>
           endswith n (str ''.rs'') \<and> l = error_reading (path_join root n) e}"
    unfolding printed' printed1 w by simp blast
  have "scan_walk (w # ws) (keys, printed) =
      ((keys \<union> {k. \<exists>root ds fs n c. (root, ds, fs) \<in> set (w # ws) \<and> (n, Inr c) \<in> set fs \<and>
          endswith n (str ''.rs'') \<and> k \<in> set (findall c)}, printed'), None)"
    unfolding w scan_walk.simps step using rest k by (simp add: w)
  with p show ?case by blast
qed


lemma set_nondirs: "(n, r) \<in> set (nondirs es) \<longleftrightarrow> (n, File r) \<in> set es"
  by (induction es rule: nondirs.induct) auto

inductive_cases file_at_DirE: "file_at tp (Dir es) root name r"
inductive_cases file_at_FileE: "file_at tp (File x) root name r"
inductive_cases file_at_UnwalkedE: "file_at tp Unwalked root name r"

lemma walk_file_at:
  "(\<exists>ds fs. (root, ds, fs) \<in> set (walk tp tree) \<and> (name, r) \<in> set fs) \<longleftrightarrow>
     file_at tp tree root name r"
  and walk_dirs_file_at:
  "(\<exists>ds fs. (root, ds, fs) \<in> set (walk_dirs tp es) \<and> (name, r) \<in> set fs) \<longleftrightarrow>
     (\<exists>n d. (n, d) \<in> set es \<and> file_at (path_join tp n) d root name r)"
proof (induction tp tree and tp es rule: walk_walk_dirs.induct)
  case (1 tp es)
  show ?case
  proof
    assume "\<exists>ds fs. (root, ds, fs) \<in> set (walk tp (Dir es)) \<and> (name, r) \<in> set fs"
    then consider "root = tp" "(name, r) \<in> set (nondirs es)"
      | "\<exists>ds fs. (root, ds, fs) \<in> set (walk_dirs tp es) \<and> (name, r) \<in> set fs"
      by auto
    then show "file_at tp (Dir es) root name r"
    proof cases
      case 1
      then show ?thesis by (auto simp: set_nondirs intro: file_at.here)
    next
      case 2
      with "1.IH" show ?thesis by (auto intro: file_at.below)
    qed
  next
    assume "file_at tp (Dir es) root name r"
    then show "\<exists>ds fs. (root, ds, fs) \<in> set (walk tp (Dir es)) \<and> (name, r) \<in> set fs"
    proof (rule file_at_DirE)
      assume "root = tp" "(name, File r) \<in> set es"
      then have "(name, r) \<in> set (nondirs es)" by (simp add: set_nondirs)
      with \<open>root = tp\<close> show ?thesis by auto
    next
      fix n d assume "(n, d) \<in> set es" "file_at (path_join tp n) d root name r"
      with "1.IH" have "\<exists>ds fs. (root, ds, fs) \<in> set (walk_dirs tp es) \<and> (name, r) \<in> set fs"
        by blast
      then show ?thesis by auto
    qed
  qed
next
  case (2 tp r')
  then show ?case by (auto elim: file_at_FileE)
next
  case (3 tp)
  then show ?case by (auto elim: file_at_UnwalkedE)
next
  case (4 tp)
  then show ?case by simp
next
  case (5 tp n d es)
  show ?case
  proof (cases "is_dir d")
    case True
    with 5 show ?thesis
      by (simp del: walk.simps) (metis)
  next
    case False
    then obtain x where "d = File x" by (cases d) auto
    with 5 show ?thesis
      by (auto elim: file_at_FileE)
  qed
qed

lemma find_tr_keys_returns:
  assumes "\<And>dir name e. file_at directory tree dir name (Inl e) \<Longrightarrow>
      endswith name (str ''.rs'') \<Longrightarrow> encodable (error_reading (path_join dir name) e)"
  shows "\<exists>printed. find_tr_keys directory tree =
      (printed, Inr {k. \<exists>dir name text. file_at directory tree dir name (Inr text) \<and>
          endswith name (str ''.rs'') \<and> k \<in> set (findall text)}) \<and>
      set printed = {l. \<exists>dir name e. file_at directory tree dir name (Inl e) \<and>
          endswith name (str ''.rs'') \<and> l = error_reading (path_join dir name) e}"
proof -
  have "\<exists>printed'. scan_walk (walk directory tree) ({}, []) =
      (({} \<union> {k. \<exists>root ds fs n c. (root, ds, fs) \<in> set (walk directory tree) \<and>
          (n, Inr c) \<in> set fs \<and> endswith n (str ''.rs'') \<and> k \<in> set (findall c)}, printed'), None) \<and>
      set printed' = set [] \<union>
        {l. \<exists>root ds fs n e. (root, ds, fs) \<in> set (walk directory tree) \<and> (n, Inl e) \<in> set fs \<and>
           endswith n (str ''.rs'') \<and> l = error_reading (path_join root n) e}"
  proof (rule scan_walk_returns)
    fix root ds fs n e
    assume "(root, ds, fs) \<in> set (walk directory tree)" "(n, Inl e) \<in> set fs"
      "endswith n (str ''.rs'')"
    then have "file_at directory tree root n (Inl e)"
      using walk_file_at by blast
    then show "encodable (error_reading (path_join root n) e)"
      using \<open>endswith n (str ''.rs'')\<close> by (rule assms)
  qed
  then obtain printed' where run: "scan_walk (walk directory tree) ({}, []) =
      (({} \<union> {k. \<exists>root ds fs n c. (root, ds, fs) \<in> set (walk directory tree) \<and>
          (n, Inr c) \<in> set fs \<and> endswith n (str ''.rs'') \<and> k \<in> set (findall c)}, printed'), None)"
    and p: "set printed' = set [] \<union>
        {l. \<exists>root ds fs n e. (root, ds, fs) \<in> set (walk directory tree) \<and> (n, Inl e) \<in> set fs \<and>
           endswith n (str ''.rs'') \<and> l = error_reading (path_join root n) e}"
    by blast
  have k: "{} \<union> {k. \<exists>root ds fs n c. (root, ds, fs) \<in> set (walk directory tree) \<and>
          (n, Inr c) \<in> set fs \<and> endswith n (str ''.rs'') \<and> k \<in> set (findall c)} =
      {k. \<exists>dir name text. file_at directory tree dir name (Inr text) \<and>
          endswith name (str ''.rs'') \<and> k \<in> set (findall text)}"
    unfolding walk_file_at [symmetric] by simp blast
  have p': "set printed' = {l. \<exists>dir name e. file_at directory tree dir name (Inl e) \<and>
          endswith name (str ''.rs'') \<and> l = error_reading (path_join dir name) e}"
    unfolding p walk_file_at [symmetric] by simp blast
  have "find_tr_keys directory tree =
      (printed', Inr {k. \<exists>dir name text. file_at directory tree dir name (Inr text) \<and>
          endswith name (str ''.rs'') \<and> k \<in> set (findall text)})"
    unfolding find_tr_keys_def run k by simp
  with p' show ?thesis by blast
qed


lemma find_tr_keys_finite:
  assumes "find_tr_keys directory tree = (printed, Inr keys)"
  shows "finite keys"
proof -
  have f: "finite (fst (fst (scan_file root f st)))" if "finite (fst st)" for root f st
  proof -
    obtain n r where "f = (n, r)" by (cases f)
    moreover obtain keys printed where "st = (keys, printed)" by (cases st)
    ultimately show ?thesis
      using that unfolding \<open>f = (n, r)\<close> \<open>st = (keys, printed)\<close> scan_file_eq
      by (auto split: sum.splits)
  qed
  have fs: "finite (fst (fst (scan_files root fs st)))" if "finite (fst st)" for root fs st
    using that
  proof (induction fs arbitrary: st)
    case Nil
    then show ?case by simp
  next
    case (Cons a fs)
    from f [OF Cons.prems, of root a] Cons.IH show ?case
      by (cases "scan_file root a st"; cases "snd (scan_file root a st)") auto
  qed
  have ws: "finite (fst (fst (scan_walk ws st)))" if "finite (fst st)" for ws st
    using that
  proof (induction ws arbitrary: st)
    case Nil
    then show ?case by simp
  next
    case (Cons w ws)
    obtain root ds files where w: "w = (root, ds, files)" by (cases w)
    from fs [OF Cons.prems, of root files] Cons.IH show ?case
      unfolding w
      by (cases "scan_files root files st"; cases "snd (scan_files root files st)") auto
  qed
  have "finite (fst (fst (scan_walk (walk directory tree) ({}, []))))"
    by (rule ws) simp
  with assms show ?thesis
    by (auto simp: find_tr_keys_def split: prod.splits option.splits)
qed

section \<open>The reporter\<close>

text \<open>
  \<^verbatim>\<open>sorted\<close> gives the same list whatever the iteration order of the set, so the
  lines of a report do not depend on it.  A turn of the loop over the localization files
  appends its section to the output and leaves \<open>used_keys\<close> as it is; the loop stops
  at the first turn that an exception leaves.
\<close>

lemma iter_ok_sorted_list_of_set: "iter_ok sorted_list_of_set"
  unfolding iter_ok_def by simp

lemma iter_ok_rev: "iter_ok (\<lambda>S. rev (sorted_list_of_set S))"
  unfolding iter_ok_def by simp

lemma py_sorted_eq:
  assumes "iter_ok it" and "finite S"
  shows "py_sorted it S = sorted_list_of_set S"
proof -
  from assms have "set (it S) = S" and "distinct (it S)"
    unfolding iter_ok_def by blast+
  then have "sorted (sort (it S))" "distinct (sort (it S))" "set (sort (it S)) = S"
    by simp_all
  then show ?thesis
    unfolding py_sorted_def by (metis sorted_list_of_set.idem_if_sorted_distinct)
qed

lemma report_eq:
  assumes "iter_ok it" and "finite used" and "finite defined"
  shows "report it used defined =
     (if used - defined = {} then [no_missing_line]
      else missing_header # map bullet (sorted_list_of_set (used - defined))) @
     (if defined - used = {} then [no_orphan_line]
      else orphan_header # map bullet (sorted_list_of_set (defined - used)))"
  using assms by (simp add: report_def Let_def py_sorted_eq)

lemma dict_keys_Inr: "dict_keys v = Inr ks \<longleftrightarrow> (\<exists>kvs. v = JObject kvs \<and> ks = map fst kvs)"
  by (cases v) auto

lemma try_body_append:
  "try_body it used r printed =
     (printed @ fst (try_body it used r []), snd (try_body it used r []))"
  by (simp add: try_body_def print_lines_eq split: sum.splits)

lemma file_section_eq:
  "file_section it used (lang_file, r) =
     (if encodable lang_file
      then (case try_body it used r [] of
              (ls, None) \<Rightarrow> (checking_line lang_file # ls, None)
            | (ls, Some e) \<Rightarrow>
                if encodable e
                then (checking_line lang_file # ls @ [error_checking lang_file e], None)
                else (checking_line lang_file # ls,
                      Some (encode_error (error_checking lang_file e))))
      else ([], Some (encode_error (checking_line lang_file))))"
proof (cases "encodable lang_file")
  case False
  then show ?thesis
    by (simp add: file_section_def check_lang_file_def py_print_def encodable_checking_line)
next
  case True
  obtain ls x where t: "try_body it used r [] = (ls, x)" by (cases "try_body it used r []")
  have t': "try_body it used r [checking_line lang_file] = (checking_line lang_file # ls, x)"
    by (subst try_body_append) (simp add: t)
  show ?thesis
    using True
    by (cases x)
      (simp_all add: file_section_def check_lang_file_def py_print_def encodable_checking_line
        encodable_error_checking t t')
qed

lemma check_lang_file_eq:
  "check_lang_file it f st =
     (st\<lparr>out := out st @ fst (file_section it (used_keys st) f)\<rparr>,
      snd (file_section it (used_keys st) f))"
proof -
  obtain lang_file r where f: "f = (lang_file, r)" by (cases f)
  obtain ls x where t: "try_body it (used_keys st) r [] = (ls, x)"
    by (cases "try_body it (used_keys st) r []")
  have t': "try_body it (used_keys st) r (out st @ [checking_line lang_file]) =
      (out st @ checking_line lang_file # ls, x)"
    by (subst try_body_append) (simp add: t)
  show ?thesis
  proof (cases "encodable lang_file")
    case False
    then show ?thesis
      unfolding f file_section_eq
      by (simp add: check_lang_file_def py_print_def encodable_checking_line)
  next
    case True
    then show ?thesis
      unfolding f file_section_eq
      by (cases x)
        (simp_all add: check_lang_file_def py_print_def encodable_checking_line
          encodable_error_checking t t')
  qed
qed

lemma used_keys_check_lang_file: "used_keys (fst (check_lang_file it f st)) = used_keys st"
  by (simp add: check_lang_file_eq)

lemma used_keys_lang_loop: "used_keys (fst (lang_loop it fs st)) = used_keys st"
proof (induction fs arbitrary: st)
  case Nil
  then show ?case by simp
next
  case (Cons f fs)
  show ?case
  proof (cases "snd (file_section it (used_keys st) f)")
    case None
    then show ?thesis by (simp add: check_lang_file_eq Cons.IH)
  next
    case (Some e)
    then show ?thesis by (simp add: check_lang_file_eq)
  qed
qed

lemma lang_loop_eq:
  "lang_loop it fs st =
     (let quiet = (\<lambda>f. snd (file_section it (used_keys st) f) = None)
      in (st\<lparr>out := out st @ concat (map (\<lambda>f. fst (file_section it (used_keys st) f))
                (takeWhile quiet fs @ take 1 (dropWhile quiet fs)))\<rparr>,
          case dropWhile quiet fs of
            [] \<Rightarrow> None
          | f # fs' \<Rightarrow> snd (file_section it (used_keys st) f)))"
proof (induction fs arbitrary: st)
  case Nil
  then show ?case by simp
next
  case (Cons f fs)
  show ?case
  proof (cases "snd (file_section it (used_keys st) f)")
    case None
    then show ?thesis
      by (simp add: check_lang_file_eq Cons.IH Let_def cong: list.case_cong)
  next
    case (Some e)
    then show ?thesis
      by (simp add: check_lang_file_eq Let_def)
  qed
qed

lemma lang_loop_quiet:
  assumes "list_all (\<lambda>f. snd (file_section it (used_keys st) f) = None) fs"
  shows "lang_loop it fs st =
     (st\<lparr>out := out st @ concat (map (\<lambda>f. fst (file_section it (used_keys st) f)) fs)\<rparr>, None)"
proof -
  from assms have
    tw: "takeWhile (\<lambda>f. snd (file_section it (used_keys st) f) = None) fs = fs" and
    dw: "dropWhile (\<lambda>f. snd (file_section it (used_keys st) f) = None) fs = []"
    by (simp_all add: list_all_iff)
  show ?thesis
    unfolding lang_loop_eq Let_def tw dw by simp
qed

lemma lang_loop_append:
  "lang_loop it (fs1 @ fs2) st =
     (case lang_loop it fs1 st of
        (st', None) \<Rightarrow> lang_loop it fs2 st'
      | (st', Some e) \<Rightarrow> (st', Some e))"
proof (induction fs1 arbitrary: st)
  case Nil
  then show ?case by simp
next
  case (Cons f fs1)
  show ?case
  proof (cases "snd (file_section it (used_keys st) f)")
    case None
    then show ?thesis by (simp add: check_lang_file_eq Cons.IH)
  next
    case (Some e)
    then show ?thesis by (simp add: check_lang_file_eq)
  qed
qed

lemma lang_loop_out:
  "lang_loop it fs st =
     (case lang_loop it fs \<lparr>used_keys = used_keys st, out = []\<rparr> of
        (st', x) \<Rightarrow> (st\<lparr>out := out st @ out st'\<rparr>, x))"
  by (simp add: lang_loop_eq [of it fs st]
      lang_loop_eq [of it fs "\<lparr>used_keys = used_keys st, out = []\<rparr>"] Let_def
      cong: list.case_cong)

lemma check_langs_eq:
  "check_langs it src_dir tree listing =
     (case find_tr_keys src_dir tree of
        (printed, Inl e) \<Rightarrow> (printed, Some e)
      | (printed, Inr keys) \<Rightarrow>
          (case listing of
             Inl e \<Rightarrow> (printed @ [found_line (card keys)], Some e)
           | Inr entries \<Rightarrow>
               (case lang_loop it (filter (\<lambda>(f, r). endswith f (str ''.json'')) entries)
                       \<lparr>used_keys = keys, out = []\<rparr> of
                  (st, x) \<Rightarrow> (printed @ found_line (card keys) # out st, x))))"
proof -
  have "lang_loop it fs \<lparr>used_keys = keys, out = printed @ [found_line (card keys)]\<rparr> =
      (case lang_loop it fs \<lparr>used_keys = keys, out = []\<rparr> of
        (st', x) \<Rightarrow> (\<lparr>used_keys = keys, out = printed @ found_line (card keys) # out st'\<rparr>, x))"
    for fs keys printed
    by (subst lang_loop_out) (simp split: prod.splits)
  then show ?thesis
    by (simp add: check_langs_def py_print_def encodable_found_line Let_def
        split: prod.splits sum.splits)
qed

lemma try_body_iter:
  assumes "iter_ok it1" and "iter_ok it2" and "finite used"
  shows "try_body it1 used r printed = try_body it2 used r printed"
proof -
  have "report it1 used (set ks) = report it2 used (set ks)" for ks
    using assms by (simp add: report_eq)
  then show ?thesis
    by (simp add: try_body_def split: sum.splits)
qed

lemma file_section_iter:
  assumes "iter_ok it1" and "iter_ok it2" and "finite used"
  shows "file_section it1 used f = file_section it2 used f"
proof -
  obtain lang_file r where f: "f = (lang_file, r)" by (cases f)
  show ?thesis
    unfolding f file_section_eq try_body_iter [OF assms] by (rule refl)
qed

lemma check_langs_iter:
  assumes "iter_ok it1" and "iter_ok it2"
  shows "check_langs it1 src_dir tree listing = check_langs it2 src_dir tree listing"
proof -
  have "lang_loop it1 fs \<lparr>used_keys = keys, out = []\<rparr> =
      lang_loop it2 fs \<lparr>used_keys = keys, out = []\<rparr>" if "finite keys" for fs keys
    unfolding lang_loop_eq using file_section_iter [OF assms that]
    by (simp cong: list.case_cong)
  then have "find_tr_keys src_dir tree = (printed, Inr keys) \<Longrightarrow>
      lang_loop it1 fs \<lparr>used_keys = keys, out = []\<rparr> =
      lang_loop it2 fs \<lparr>used_keys = keys, out = []\<rparr>" for printed keys fs
    using find_tr_keys_finite by blast
  then show ?thesis
    unfolding check_langs_eq by (auto split: prod.splits sum.splits)
qed

lemma found_occurrence: "found s k \<Longrightarrow> \<exists>pre t k' r. s = pre @ t \<and> tr_call t k' r"
proof (induction rule: found.induct)
  case (here s k r)
  then show ?case by (metis append_Nil)
next
  case (after s k' r k)
  then show ?case by (metis append_Nil)
next
  case (skip c s k)
  then obtain pre t k' r where "s = pre @ t" "tr_call t k' r" by blast
  then have "c # s = (c # pre) @ t" by simp
  with \<open>tr_call t k' r\<close> show ?case by blast
qed

text \<open>
  The section of a file.  The only texts that reach the handler are the error text of
  the file, the text for a value without keys, and the text of an encoding error; the
  last two can always be encoded.
\<close>

lemma encodable_no_attribute_keys: "list_all (\<lambda>c. of_char c < (128::nat)) ty \<Longrightarrow> encodable (no_attribute_keys ty)"
  by (simp add: no_attribute_keys_def encodable_append encodable_Cons encodable_Nil
      is_surrogate_def encodable_ascii list_all_iff)

lemma encodable_dict_keys_error: "dict_keys v = Inl e \<Longrightarrow> encodable e"
  by (cases v) (auto simp: encodable_no_attribute_keys)

lemma try_body_error_encodable:
  assumes "try_body it used r [] = (ls, Some x)" and "\<And>e. r = Inl e \<Longrightarrow> encodable e"
  shows "encodable x"
proof (cases r)
  case (Inl e)
  with assms show ?thesis by (simp add: try_body_def)
next
  case (Inr v)
  show ?thesis
  proof (cases "dict_keys v")
    case (Inl e)
    with Inr assms(1) encodable_dict_keys_error [OF Inl] show ?thesis
      by (simp add: try_body_def)
  next
    case Inr2: (Inr ks)
    with Inr assms(1) show ?thesis
      by (auto simp: try_body_def print_lines_eq encodable_encode_error split: list.splits)
  qed
qed

lemma file_section_quiet:
  assumes "encodable lang_file" and "\<And>e. r = Inl e \<Longrightarrow> encodable e"
  shows "snd (file_section it used (lang_file, r)) = None"
proof -
  obtain ls x where t: "try_body it used r [] = (ls, x)" by (cases "try_body it used r []")
  show ?thesis
  proof (cases x)
    case None
    with t assms(1) show ?thesis by (simp add: file_section_eq)
  next
    case (Some e)
    with t assms(2) have "encodable e" by (auto intro: try_body_error_encodable)
    with t Some assms(1) show ?thesis by (simp add: file_section_eq)
  qed
qed

lemma file_section_failed:
  assumes "encodable lang_file" and "encodable e"
  shows "file_section it used (lang_file, Inl e) =
     ([checking_line lang_file, error_checking lang_file e], None)"
  using assms by (simp add: file_section_eq try_body_def)

lemma file_section_lines:
  assumes "encodable lang_file" and "dict_keys lang_data = Inr ks"
  shows "file_section it used (lang_file, Inr lang_data) =
     (checking_line lang_file # takeWhile encodable (report it used (set ks)) @
        (case dropWhile encodable (report it used (set ks)) of
           [] \<Rightarrow> []
         | l # ls \<Rightarrow> [error_checking lang_file (encode_error l)]),
      None)"
proof -
  have t: "try_body it used (Inr lang_data) [] =
      (takeWhile encodable (report it used (set ks)),
       case dropWhile encodable (report it used (set ks)) of
         [] \<Rightarrow> None | l # ls \<Rightarrow> Some (encode_error l))"
    using assms(2) by (simp add: try_body_def print_lines_eq)
  show ?thesis
  proof (cases "dropWhile encodable (report it used (set ks))")
    case Nil
    show ?thesis
      unfolding file_section_eq t Nil using assms(1) by simp
  next
    case (Cons l ls)
    show ?thesis
      unfolding file_section_eq t Cons using assms(1) by (simp add: encodable_encode_error)
  qed
qed

lemma file_section_parsed:
  assumes "iter_ok it" and "finite used" and "encodable lang_file"
    and "dict_keys lang_data = Inr ks"
  shows "file_section it used (lang_file, Inr lang_data) =
     (let lines =
        (if used - set ks = {} then [no_missing_line]
         else missing_header # map bullet (sorted_list_of_set (used - set ks))) @
        (if set ks - used = {} then [no_orphan_line]
         else orphan_header # map bullet (sorted_list_of_set (set ks - used)))
      in (checking_line lang_file # takeWhile encodable lines @
            (case dropWhile encodable lines of
               [] \<Rightarrow> []
             | l # ls \<Rightarrow> [error_checking lang_file (encode_error l)]),
          None))"
proof -
  have fin: "finite (set ks)" by simp
  show ?thesis
    unfolding file_section_lines [OF assms(3,4)] report_eq [OF assms(1,2) fin] Let_def
    by (rule refl)
qed

text \<open>
  When the error line of every unreadable source file can be encoded, and so can the
  name of every localization file and the error text of every one that fails, no
  exception leaves \<open>check_langs\<close>.
\<close>

lemma check_langs_quiet:
  assumes tree: "\<And>dir name e. file_at src_dir tree dir name (Inl e) \<Longrightarrow>
      endswith name (str ''.rs'') \<Longrightarrow> encodable (error_reading (path_join dir name) e)"
    and files: "\<And>f r. (f, r) \<in> set entries \<Longrightarrow> endswith f (str ''.json'') \<Longrightarrow>
      encodable f \<and> (\<forall>e. r = Inl e \<longrightarrow> encodable e)"
  shows "snd (check_langs it src_dir tree (Inr entries)) = None"
proof -
  from find_tr_keys_returns [of src_dir tree, OF tree]
  obtain printed keys where ft: "find_tr_keys src_dir tree = (printed, Inr keys)"
    by blast
  define J where "J = filter (\<lambda>(f, r). endswith f (str ''.json'')) entries"
  have "snd (file_section it keys f) = None" if "f \<in> set J" for f
  proof -
    obtain n r where f: "f = (n, r)" by (cases f)
    from that have "(n, r) \<in> set entries" "endswith n (str ''.json'')"
      unfolding J_def f by auto
    from files [OF this] show ?thesis
      unfolding f by (intro file_section_quiet) auto
  qed
  then have "list_all (\<lambda>f. snd (file_section it (used_keys \<lparr>used_keys = keys, out = []\<rparr>) f) = None) J"
    by (simp add: list_all_iff)
  then have "snd (lang_loop it J \<lparr>used_keys = keys, out = []\<rparr>) = None"
    by (simp add: lang_loop_quiet)
  then show ?thesis
    unfolding check_langs_eq ft J_def by (auto split: prod.splits)
qed

section \<open>Scenarios\<close>

text \<open>
  Facts for running the functions on concrete inputs: the decimal text of a numeral and
  of a position counted by \<open>length\<close>, and the definitions to unfold.
\<close>

lemma show_nat_numeral:
  "show_nat (numeral k) =
     (if numeral k < (10::nat) then [48 + numeral k]
      else show_nat (numeral k div 10) @ [48 + numeral k mod 10])"
  by (rule show_nat.simps)

lemma show_nat_Suc_Suc: "show_nat (Suc (Suc n)) = show_nat (n + 2)"
  by simp

lemmas run_defs = show_nat_numeral
  find_tr_keys_def endswith_def findall_def pattern_def is_space_def path_join_def
  py_print_def encodable_def is_surrogate_def encode_error_def show_hex4_def hex_digit_def
  show_nat_digit error_reading_def check_langs_def check_lang_file_def try_body_def
  file_section_def report_def py_sorted_def found_line_def checking_line_def
  error_checking_def missing_header_def no_missing_line_def orphan_header_def
  no_orphan_line_def bullet_def not_found_line_def main_def Let_def insert_Diff_if

text \<open>
  Two calls in a file of a subdirectory, the first with a receiver and double quotes, the
  second with single quotes and its argument on a line of its own.
\<close>

lemma scenario_two_calls:
  "find_tr_keys (str ''src'')
     (Dir [(str ''ui'', Dir [(str ''main.rs'',
        File (Inr (str ''widget.tr('' @ [34] @ str ''hello.world'' @ [34] @ str '')'' @ [10] @
                   str ''other.tr('' @ [10] @ str ''    '' @ [39] @ str ''goodbye'' @ [39] @
                   str '' )'')))])]) =
     ([], Inr {str ''hello.world'', str ''goodbye''})"
  by (auto simp: run_defs)

text \<open>
  A file that cannot be read is reported with its path and the walk goes on; a file with
  another extension is not opened at all.
\<close>

lemma scenario_unreadable_file:
  "find_tr_keys (str ''src'')
     (Dir [(str ''a.rs'', File (Inl (str ''Permission denied''))),
           (str ''sub'', Dir [(str ''b.rs'', File (Inr (str ''x.tr('' @ [39] @ str ''k'' @ [39, 41])))]),
           (str ''c.txt'', File (Inl (str ''Permission denied'')))]) =
     ([str ''Error reading src/a.rs: Permission denied''], Inr {str ''k''})"
  by (simp add: run_defs)

text \<open>
  A whole run: one key in the source, one localization file with that key and one more;
  an entry of the localization directory with another extension is not looked at.
\<close>

lemma scenario_full_run:
  "main sorted_list_of_set (str ''/proj'')
     \<lparr>src_node = Some (Dir [(str ''lib.rs'', File (Inr (str ''t.tr('' @ [34] @ str ''k'' @ [34, 41])))]),
      lang_node = Some (Inr [(str ''en.json'', Inr (JObject [(str ''b'', JNull), (str ''k'', JNull)])),
                             (str ''readme.md'', Inl (str ''unused''))])\<rparr> =
     \<lparr>stdout =
        [str ''--- [Found 1 unique keys in Rust source code] ---'',
         [10] @ str ''Checking: en.json'',
         str ''  '' @ [9989] @ str '' No missing keys.'',
         str ''  '' @ [9888, 65039] @ str '' Orphan keys (In JSON but NOT used in code):'',
         str ''    - b''],
      exit_status = 0, uncaught = None\<rparr>"
  by (simp add: run_defs)

section \<open>The claims\<close>



text \<open>
  C2 (amended).  The pattern asks for the closing parenthesis right after the quoted
  literal (optional whitespace apart).  For a text that starts like a call, with a
  quoted literal \<open>k\<close> followed by optional whitespace and a character \<open>c\<close>: when \<open>c\<close>
  is the closing parenthesis the search reports \<open>k\<close> and goes on after the call; when
  \<open>c\<close> is anything else (such as the comma before a trailing argument) there is no
  match at this call and the search goes on from its second character, so the literal
  is not taken from this call.
\<close>

theorem closing_parenthesis_required:
  assumes "list_all is_space ws1" and "list_all is_space ws2" and "list_all is_space ws3"
    and "is_quote q1" and "is_quote q2"
    and "k \<noteq> []" and "list_all (\<lambda>c. \<not> is_quote c) k"
    and "\<not> is_space c"
  shows "findall (str ''.tr'' @ ws1 @ [40] @ ws2 @ [q1] @ k @ [q2] @ ws3 @ c # rest) =
     (if c = 41 then k # findall rest
      else findall (str ''tr'' @ ws1 @ [40] @ ws2 @ [q1] @ k @ [q2] @ ws3 @ c # rest))"
proof (cases "c = 41")
  case True
  have "tr_call (str ''.tr'' @ ws1 @ [40] @ ws2 @ [q1] @ k @ [q2] @ ws3 @ [41] @ rest) k rest"
    unfolding tr_call_def using assms by blast
  then show ?thesis using True by (simp add: findall_match)
next
  case False
  have "bt pattern (str ''.tr'' @ ws1 @ [40] @ ws2 @ [q1] @ k @ [q2] @ ws3 @ c # rest) = None"
    using False by (simp only: bt_call_prefix [OF assms] if_False)
  then have "\<nexists>k' r. tr_call (46 # str ''tr'' @ ws1 @ [40] @ ws2 @ [q1] @ k @ [q2] @ ws3 @ c # rest) k' r"
    by (simp add: bt_pattern_None)
  then have "findall (46 # str ''tr'' @ ws1 @ [40] @ ws2 @ [q1] @ k @ [q2] @ ws3 @ c # rest) =
      findall (str ''tr'' @ ws1 @ [40] @ ws2 @ [q1] @ k @ [q2] @ ws3 @ c # rest)"
    by (rule findall_no_match)
  then show ?thesis using False by simp
qed

text \<open>
  The theorem at \<^verbatim>\<open>.tr("key", name)\<close>, where nothing is found, and at
  \<^verbatim>\<open>.tr("key" )\<close>, where the key is found.
\<close>

theorem closing_parenthesis_required_witness:
  "findall (str ''.tr('' @ [34] @ str ''key'' @ [34] @ str '', name)'') = [] \<and>
   findall (str ''.tr('' @ [34] @ str ''key'' @ [34] @ str '' )'') = [str ''key'']"
  using closing_parenthesis_required [of "[]" "[]" "[]" 34 34 "str ''key''" 44 "str '' name)''"]
    closing_parenthesis_required [of "[]" "[]" "[32]" 34 34 "str ''key''" 41 "[]"]
  by (simp add: is_quote_def is_space_def findall_def pattern_def)

text \<open>
  C2 as stated fails: a source file whose text is the call \<^verbatim>\<open>.tr("key", name)\<close>, with a
  trailing argument, yields no key at all.
\<close>

theorem trailing_argument_counterexample:
  "find_tr_keys (str ''src'')
     (Dir [(str ''lib.rs'',
            File (Inr (str ''.tr('' @ [34] @ str ''key'' @ [34] @ str '', name)'')))]) =
     ([], Inr {})"
  by (simp add: run_defs)



text \<open>
  C4 (amended).  Take a localization file that cannot be read or parsed, whose name
  ends in \<^verbatim>\<open>.json\<close>, and whose name and error text hold no lone surrogate.  Its turn
  prints the line \<^verbatim>\<open>Checking: \<close> with the name and the line \<^verbatim>\<open>Error checking \<close> with the
  name, a colon and the error text, prints no report, raises nothing and leaves
  \<open>used_keys\<close> as it was.  When the extractor returned and the files before it raised
  nothing, the output of the run is the output for the files before it, these two
  lines, and the output for the files after it; the output and the exception of the
  files after it are the same as in a run without the failing file.
\<close>

theorem unreadable_lang_file_skipped:
  assumes "endswith lang_file (str ''.json'')" and "encodable lang_file" and "encodable e"
  shows "file_section it used (lang_file, Inl e) =
       ([[10] @ str ''Checking: '' @ lang_file,
         str ''Error checking '' @ lang_file @ str '': '' @ e], None) \<and>
     used_keys (fst (check_lang_file it (lang_file, Inl e) st)) = used_keys st \<and>
     (\<forall>printed keys.
        find_tr_keys src_dir tree = (printed, Inr keys) \<and>
        snd (check_langs it src_dir tree (Inr before)) = None \<longrightarrow>
        (let A = fst (check_langs it src_dir tree (Inr before));
             r = lang_loop it (filter (\<lambda>(f, r). endswith f (str ''.json'')) after)
                   \<lparr>used_keys = keys, out = []\<rparr>
         in check_langs it src_dir tree (Inr (before @ (lang_file, Inl e) # after)) =
              (A @ [[10] @ str ''Checking: '' @ lang_file,
                    str ''Error checking '' @ lang_file @ str '': '' @ e] @ out (fst r), snd r) \<and>
            check_langs it src_dir tree (Inr (before @ after)) = (A @ out (fst r), snd r)))"
proof (intro conjI allI impI)
  show sec: "file_section it used (lang_file, Inl e) =
       ([[10] @ str ''Checking: '' @ lang_file,
         str ''Error checking '' @ lang_file @ str '': '' @ e], None)" for used
    using file_section_failed [OF assms(2,3)]
    by (simp add: checking_line_def error_checking_def)
  show "used_keys (fst (check_lang_file it (lang_file, Inl e) st)) = used_keys st"
    by (rule used_keys_check_lang_file)
  fix printed keys
  assume a: "find_tr_keys src_dir tree = (printed, Inr keys) \<and>
        snd (check_langs it src_dir tree (Inr before)) = None"
  let ?J = "filter (\<lambda>(f, r). endswith f (str ''.json''))"
  let ?st0 = "\<lparr>used_keys = keys, out = []\<rparr>"
  let ?two = "[[10] @ str ''Checking: '' @ lang_file,
               str ''Error checking '' @ lang_file @ str '': '' @ e]"
  define Jb where "Jb = ?J before"
  define Ja where "Ja = ?J after"
  have J1: "?J (before @ (lang_file, Inl e) # after) = Jb @ (lang_file, Inl e) # Ja"
    unfolding Jb_def Ja_def using assms(1) by simp
  have J2: "?J (before @ after) = Jb @ Ja"
    unfolding Jb_def Ja_def by simp
  from a have ft: "find_tr_keys src_dir tree = (printed, Inr keys)" ..
  have run: "check_langs it src_dir tree (Inr entries) =
      (case lang_loop it (?J entries) ?st0 of
         (st, x) \<Rightarrow> (printed @ found_line (card keys) # out st, x))" for entries
    by (simp only: check_langs_eq ft prod.case sum.case)
  obtain stb xb where b: "lang_loop it Jb ?st0 = (stb, xb)"
    by (cases "lang_loop it Jb ?st0")
  have A0: "check_langs it src_dir tree (Inr before) =
      (printed @ found_line (card keys) # out stb, xb)"
    unfolding run Jb_def [symmetric] b by simp
  with a have xb: "xb = None" by simp
  have kb: "used_keys stb = keys"
    using used_keys_lang_loop [of it Jb ?st0] b by simp
  obtain str' xr where r: "lang_loop it Ja ?st0 = (str', xr)"
    by (cases "lang_loop it Ja ?st0")
  have rest: "lang_loop it Ja st' = (st'\<lparr>out := out st' @ out str'\<rparr>, xr)"
    if "used_keys st' = keys" for st'
    by (subst lang_loop_out) (simp add: that r)
  have turn: "check_lang_file it (lang_file, Inl e) stb = (stb\<lparr>out := out stb @ ?two\<rparr>, None)"
    by (simp add: check_lang_file_eq sec)
  have with_file: "lang_loop it (Jb @ (lang_file, Inl e) # Ja) ?st0 =
      (stb\<lparr>out := out stb @ ?two @ out str'\<rparr>, xr)"
    by (simp add: lang_loop_append b xb turn rest kb)
  have without: "lang_loop it (Jb @ Ja) ?st0 = (stb\<lparr>out := out stb @ out str'\<rparr>, xr)"
    by (simp add: lang_loop_append b xb rest kb)
  have A: "fst (check_langs it src_dir tree (Inr before)) =
      printed @ found_line (card keys) # out stb"
    by (simp add: A0)
  have "check_langs it src_dir tree (Inr (before @ (lang_file, Inl e) # after)) =
          ((printed @ found_line (card keys) # out stb) @ ?two @ out str', xr) \<and>
        check_langs it src_dir tree (Inr (before @ after)) =
          ((printed @ found_line (card keys) # out stb) @ out str', xr)"
    unfolding run J1 J2 with_file without by simp
  then show "let A = fst (check_langs it src_dir tree (Inr before));
             r = lang_loop it (?J after) ?st0
         in check_langs it src_dir tree (Inr (before @ (lang_file, Inl e) # after)) =
              (A @ ?two @ out (fst r), snd r) \<and>
            check_langs it src_dir tree (Inr (before @ after)) = (A @ out (fst r), snd r)"
    unfolding Let_def A Ja_def [symmetric] r by simp
qed

text \<open>
  A run over a file that does not parse followed by a file that does.
\<close>

theorem unreadable_lang_file_skipped_witness:
  "check_langs sorted_list_of_set (str ''src'') (Dir [])
     (Inr [(str ''de.json'', Inl (str ''Expecting value'')),
           (str ''en.json'', Inr (JObject []))]) =
     ([str ''--- [Found 0 unique keys in Rust source code] ---'',
       [10] @ str ''Checking: de.json'',
       str ''Error checking de.json: Expecting value'',
       [10] @ str ''Checking: en.json'',
       str ''  '' @ [9989] @ str '' No missing keys.'',
       str ''  '' @ [9989] @ str '' No orphan keys.''], None)"
proof -
  have a: "find_tr_keys (str ''src'') (Dir []) = ([], Inr {}) \<and>
      snd (check_langs sorted_list_of_set (str ''src'') (Dir []) (Inr [])) = None"
    by (simp add: run_defs)
  have j: "endswith (str ''de.json'') (str ''.json'')" by (simp add: endswith_def)
  have e1: "encodable (str ''de.json'')" and e2: "encodable (str ''Expecting value'')"
    by (simp_all add: encodable_def is_surrogate_def)
  note unreadable_lang_file_skipped [OF j e1 e2, where it = sorted_list_of_set
      and src_dir = "str ''src''" and tree = "Dir []" and before = "[]"
      and after = "[(str ''en.json'', Inr (JObject []))]",
      THEN conjunct2, THEN conjunct2, rule_format, OF a, unfolded Let_def, THEN conjunct1]
  then show ?thesis by (simp add: run_defs)
qed

text \<open>
  C4 as stated fails: the call of \<^verbatim>\<open>print\<close> for the header line stands before the
  \<^verbatim>\<open>try\<close>.  For a failing file whose name starts with a byte that is not UTF-8 (the
  surrogate U+DCFF in the name), the exception of that call leaves \<open>check_langs\<close>; no
  error line is printed for the file and the file after it is not processed.
\<close>

theorem unreadable_lang_file_counterexample:
  "check_langs sorted_list_of_set (str ''src'') (Dir [])
     (Inr [([56575] @ str ''.json'', Inl (str ''Expecting value'')),
           (str ''en.json'', Inr (JObject []))]) =
     ([str ''--- [Found 0 unique keys in Rust source code] ---''],
      Some ([39] @ str ''utf-8'' @ [39] @ str '' codec can'' @ [39] @
            str ''t encode character '' @ [39, 92] @ str ''udcff'' @ [39] @
            str '' in position 11: surrogates not allowed''))"
  by (simp add: run_defs show_nat_Suc_Suc del: add_2_eq_Suc add_2_eq_Suc')

text \<open>
  C5 (amended).  A source file that cannot be read and whose error line
  (\<^verbatim>\<open>Error reading \<close>, the path, a colon and the error text) can be encoded adds this
  line to the output and leaves the set of keys as it was; a file with another
  extension changes nothing.  When the error lines of all unreadable files with the
  extension can be encoded, \<open>find_tr_keys\<close> returns the union of the matches of all
  readable files with the extension, and the lines it printed are these error lines.
\<close>

theorem unreadable_source_file_skipped:
  "(\<not> endswith file (str ''.rs'') \<longrightarrow>
      scan_file root (file, Inl e) (keys, printed) = ((keys, printed), None)) \<and>
   (endswith file (str ''.rs'') \<and>
    encodable (str ''Error reading '' @ path_join root file @ str '': '' @ e) \<longrightarrow>
      scan_file root (file, Inl e) (keys, printed) =
        ((keys, printed @ [str ''Error reading '' @ path_join root file @ str '': '' @ e]), None)) \<and>
   ((\<forall>dir name e'. file_at directory tree dir name (Inl e') \<and> endswith name (str ''.rs'') \<longrightarrow>
        encodable (str ''Error reading '' @ path_join dir name @ str '': '' @ e')) \<longrightarrow>
    (\<exists>lines. find_tr_keys directory tree =
        (lines, Inr (\<Union> {set (findall text) | dir name text.
            file_at directory tree dir name (Inr text) \<and> endswith name (str ''.rs'')})) \<and>
      set lines =
        {str ''Error reading '' @ path_join dir name @ str '': '' @ e' | dir name e'.
           file_at directory tree dir name (Inl e') \<and> endswith name (str ''.rs'')}))"
proof (intro conjI impI)
  assume "\<not> endswith file (str ''.rs'')"
  then show "scan_file root (file, Inl e) (keys, printed) = ((keys, printed), None)"
    unfolding scan_file_eq by simp
next
  assume "endswith file (str ''.rs'') \<and>
    encodable (str ''Error reading '' @ path_join root file @ str '': '' @ e)"
  then show "scan_file root (file, Inl e) (keys, printed) =
        ((keys, printed @ [str ''Error reading '' @ path_join root file @ str '': '' @ e]), None)"
    unfolding scan_file_eq by (simp add: error_reading_def)
next
  assume ok: "\<forall>dir name e'. file_at directory tree dir name (Inl e') \<and> endswith name (str ''.rs'') \<longrightarrow>
        encodable (str ''Error reading '' @ path_join dir name @ str '': '' @ e')"
  have er: "error_reading p x = str ''Error reading '' @ p @ str '': '' @ x" for p x
    by (simp add: error_reading_def)
  from ok have "\<exists>printed. find_tr_keys directory tree =
      (printed, Inr {k. \<exists>dir name text. file_at directory tree dir name (Inr text) \<and>
          endswith name (str ''.rs'') \<and> k \<in> set (findall text)}) \<and>
      set printed = {l. \<exists>dir name e. file_at directory tree dir name (Inl e) \<and>
          endswith name (str ''.rs'') \<and> l = error_reading (path_join dir name) e}"
    by (intro find_tr_keys_returns) (simp add: er)
  then obtain lines where f: "find_tr_keys directory tree =
      (lines, Inr {k. \<exists>dir name text. file_at directory tree dir name (Inr text) \<and>
          endswith name (str ''.rs'') \<and> k \<in> set (findall text)})"
    and l: "set lines = {l. \<exists>dir name e. file_at directory tree dir name (Inl e) \<and>
          endswith name (str ''.rs'') \<and> l = error_reading (path_join dir name) e}"
    by blast
  have k: "{k. \<exists>dir name text. file_at directory tree dir name (Inr text) \<and>
          endswith name (str ''.rs'') \<and> k \<in> set (findall text)} =
      \<Union> {set (findall text) | dir name text.
            file_at directory tree dir name (Inr text) \<and> endswith name (str ''.rs'')}"
    by blast
  have l': "set lines =
        {str ''Error reading '' @ path_join dir name @ str '': '' @ e' | dir name e'.
           file_at directory tree dir name (Inl e') \<and> endswith name (str ''.rs'')}"
    unfolding l er by blast
  from f l' show "\<exists>lines. find_tr_keys directory tree =
        (lines, Inr (\<Union> {set (findall text) | dir name text.
            file_at directory tree dir name (Inr text) \<and> endswith name (str ''.rs'')})) \<and>
      set lines =
        {str ''Error reading '' @ path_join dir name @ str '': '' @ e' | dir name e'.
           file_at directory tree dir name (Inl e') \<and> endswith name (str ''.rs'')}"
    unfolding k by blast
qed

text \<open>
  A tree with an unreadable file beside a subdirectory with a readable one.
\<close>

theorem unreadable_source_file_skipped_witness:
  "find_tr_keys (str ''src'')
     (Dir [(str ''a.rs'', File (Inl (str ''Permission denied''))),
           (str ''sub'', Dir [(str ''b.rs'', File (Inr (str ''x.tr('' @ [39] @ str ''k'' @ [39, 41])))])]) =
     ([str ''Error reading src/a.rs: Permission denied''], Inr {str ''k''}) \<and>
   (\<exists>lines.
      find_tr_keys (str ''src'')
        (Dir [(str ''a.rs'', File (Inl (str ''Permission denied''))),
              (str ''sub'', Dir [(str ''b.rs'', File (Inr (str ''x.tr('' @ [39] @ str ''k'' @ [39, 41])))])]) =
        (lines, Inr (\<Union> {set (findall text) | dir name text.
           file_at (str ''src'')
             (Dir [(str ''a.rs'', File (Inl (str ''Permission denied''))),
                   (str ''sub'', Dir [(str ''b.rs'', File (Inr (str ''x.tr('' @ [39] @ str ''k'' @ [39, 41])))])])
             dir name (Inr text) \<and> endswith name (str ''.rs'')})) \<and>
      set lines =
        {str ''Error reading '' @ path_join dir name @ str '': '' @ e' | dir name e'.
           file_at (str ''src'')
             (Dir [(str ''a.rs'', File (Inl (str ''Permission denied''))),
                   (str ''sub'', Dir [(str ''b.rs'', File (Inr (str ''x.tr('' @ [39] @ str ''k'' @ [39, 41])))])])
             dir name (Inl e') \<and> endswith name (str ''.rs'')})"
proof
  let ?T = "Dir [(str ''a.rs'', File (Inl (str ''Permission denied''))),
           (str ''sub'', Dir [(str ''b.rs'', File (Inr (str ''x.tr('' @ [39] @ str ''k'' @ [39, 41])))])]"
  show "find_tr_keys (str ''src'') ?T =
     ([str ''Error reading src/a.rs: Permission denied''], Inr {str ''k''})"
    by (simp add: run_defs)
  have ok: "\<forall>dir name e'. file_at (str ''src'') ?T dir name (Inl e') \<and> endswith name (str ''.rs'') \<longrightarrow>
        encodable (str ''Error reading '' @ path_join dir name @ str '': '' @ e')"
    by (auto simp: walk_file_at [symmetric] path_join_def encodable_def is_surrogate_def)
  show "\<exists>lines. find_tr_keys (str ''src'') ?T =
        (lines, Inr (\<Union> {set (findall text) | dir name text.
           file_at (str ''src'') ?T dir name (Inr text) \<and> endswith name (str ''.rs'')})) \<and>
      set lines =
        {str ''Error reading '' @ path_join dir name @ str '': '' @ e' | dir name e'.
           file_at (str ''src'') ?T dir name (Inl e') \<and> endswith name (str ''.rs'')}"
    by (rule unreadable_source_file_skipped [of _ _ _ _ _ "str ''src''" ?T,
          THEN conjunct2, THEN conjunct2, THEN mp, OF ok])
qed

text \<open>
  C5 as stated fails: the call of \<^verbatim>\<open>print\<close> stands in the handler.  For an unreadable
  file whose name starts with a byte that is not UTF-8, that call raises, nothing is
  printed, and the exception leaves \<open>find_tr_keys\<close>: the key of the readable file after
  it is never extracted.
\<close>

theorem unreadable_source_file_counterexample:
  "find_tr_keys (str ''src'')
     (Dir [([56575] @ str ''.rs'', File (Inl (str ''Permission denied''))),
           (str ''b.rs'', File (Inr (str ''t.tr('' @ [34] @ str ''k'' @ [34, 41])))]) =
     ([], Inl ([39] @ str ''utf-8'' @ [39] @ str '' codec can'' @ [39] @
               str ''t encode character '' @ [39, 92] @ str ''udcff'' @ [39] @
               str '' in position 18: surrogates not allowed''))"
  by (simp add: run_defs show_nat_Suc_Suc del: add_2_eq_Suc add_2_eq_Suc')

text \<open>
  C6 (amended).  When the source path or the localization path does not exist, the
  script prints the one error line and nothing else, and ends with status 1.  When both
  exist, it prints what \<open>check_langs\<close> prints, and its status is 0 exactly when no
  exception leaves \<open>check_langs\<close>, whatever was found.  That is the case when the
  localization directory can be listed and every line printed outside a \<^verbatim>\<open>try\<close> block
  can be encoded: the error lines of the unreadable source files, the names of the
  localization files and the error texts of those that fail.
\<close>

theorem exit_status_spec:
  "(src_node w = None \<or> lang_node w = None \<longrightarrow>
      main it cwd w = \<lparr>stdout = [not_found_line], exit_status = 1, uncaught = None\<rparr>) \<and>
   (\<forall>tree listing. src_node w = Some tree \<and> lang_node w = Some listing \<longrightarrow>
      stdout (main it cwd w) = fst (check_langs it (path_join cwd (str ''src'')) tree listing) \<and>
      uncaught (main it cwd w) = snd (check_langs it (path_join cwd (str ''src'')) tree listing) \<and>
      (exit_status (main it cwd w) = 0 \<longleftrightarrow> uncaught (main it cwd w) = None) \<and>
      (exit_status (main it cwd w) = 1 \<longleftrightarrow> uncaught (main it cwd w) \<noteq> None)) \<and>
   (\<forall>tree entries.
      src_node w = Some tree \<and> lang_node w = Some (Inr entries) \<and>
      (\<forall>dir name e. file_at (path_join cwd (str ''src'')) tree dir name (Inl e) \<and>
          endswith name (str ''.rs'') \<longrightarrow>
          encodable (str ''Error reading '' @ path_join dir name @ str '': '' @ e)) \<and>
      (\<forall>f r. (f, r) \<in> set entries \<and> endswith f (str ''.json'') \<longrightarrow>
          encodable f \<and> (\<forall>e. r = Inl e \<longrightarrow> encodable e)) \<longrightarrow>
      exit_status (main it cwd w) = 0 \<and> uncaught (main it cwd w) = None)"
proof (intro conjI impI allI)
  assume "src_node w = None \<or> lang_node w = None"
  then show "main it cwd w = \<lparr>stdout = [not_found_line], exit_status = 1, uncaught = None\<rparr>"
    by (auto simp: main_def Let_def py_print_def encodable_not_found_line split: option.splits)
next
  fix tree listing
  assume a: "src_node w = Some tree \<and> lang_node w = Some listing"
  define src where "src = path_join cwd (str ''src'')"
  obtain printed x where c: "check_langs it src tree listing = (printed, x)"
    by (cases "check_langs it src tree listing")
  have "main it cwd w =
      (case check_langs it src tree listing of
         (printed, None) \<Rightarrow> \<lparr>stdout = printed, exit_status = 0, uncaught = None\<rparr>
       | (printed, Some e) \<Rightarrow> \<lparr>stdout = printed, exit_status = 1, uncaught = Some e\<rparr>)"
    using a unfolding main_def Let_def src_def by simp
  then have m: "main it cwd w =
      (case x of None \<Rightarrow> \<lparr>stdout = printed, exit_status = 0, uncaught = None\<rparr>
       | Some e \<Rightarrow> \<lparr>stdout = printed, exit_status = 1, uncaught = Some e\<rparr>)"
    unfolding c by (cases x) simp_all
  show "stdout (main it cwd w) = fst (check_langs it (path_join cwd (str ''src'')) tree listing)"
    unfolding src_def [symmetric] m c by (simp split: option.splits)
  show "uncaught (main it cwd w) = snd (check_langs it (path_join cwd (str ''src'')) tree listing)"
    unfolding src_def [symmetric] m c by (simp split: option.splits)
  show "exit_status (main it cwd w) = 0 \<longleftrightarrow> uncaught (main it cwd w) = None"
    unfolding m by (simp split: option.splits)
  show "exit_status (main it cwd w) = 1 \<longleftrightarrow> uncaught (main it cwd w) \<noteq> None"
    unfolding m by (simp split: option.splits)
next
  fix tree entries
  assume a: "src_node w = Some tree \<and> lang_node w = Some (Inr entries) \<and>
      (\<forall>dir name e. file_at (path_join cwd (str ''src'')) tree dir name (Inl e) \<and>
          endswith name (str ''.rs'') \<longrightarrow>
          encodable (str ''Error reading '' @ path_join dir name @ str '': '' @ e)) \<and>
      (\<forall>f r. (f, r) \<in> set entries \<and> endswith f (str ''.json'') \<longrightarrow>
          encodable f \<and> (\<forall>e. r = Inl e \<longrightarrow> encodable e))"
  have q: "snd (check_langs it (path_join cwd (str ''src'')) tree (Inr entries)) = None"
  proof (rule check_langs_quiet)
    fix dir name e
    assume "file_at (path_join cwd (str ''src'')) tree dir name (Inl e)" "endswith name (str ''.rs'')"
    with a show "encodable (error_reading (path_join dir name) e)"
      unfolding error_reading_def by blast
  next
    fix f r
    assume "(f, r) \<in> set entries" "endswith f (str ''.json'')"
    with a show "encodable f \<and> (\<forall>e. r = Inl e \<longrightarrow> encodable e)" by blast
  qed
  define src where "src = path_join cwd (str ''src'')"
  obtain printed where c: "check_langs it src tree (Inr entries) = (printed, None)"
    using q unfolding src_def by (cases "check_langs it (path_join cwd (str ''src'')) tree (Inr entries)") auto
  have "main it cwd w =
      (case check_langs it src tree (Inr entries) of
         (printed, None) \<Rightarrow> \<lparr>stdout = printed, exit_status = 0, uncaught = None\<rparr>
       | (printed, Some e) \<Rightarrow> \<lparr>stdout = printed, exit_status = 1, uncaught = Some e\<rparr>)"
    using a unfolding main_def Let_def src_def by simp
  then have m: "main it cwd w = \<lparr>stdout = printed, exit_status = 0, uncaught = None\<rparr>"
    unfolding c by simp
  show "exit_status (main it cwd w) = 0" unfolding m by simp
  show "uncaught (main it cwd w) = None" unfolding m by simp
qed

text \<open>
  The theorem at a directory without \<^verbatim>\<open>src\<close>, and at a project with an orphan key.
\<close>

theorem exit_status_spec_witness:
  "main sorted_list_of_set (str ''/proj'') \<lparr>src_node = None, lang_node = Some (Inr [])\<rparr> =
     \<lparr>stdout = [str ''Error: Could not find '' @ [39] @ str ''src'' @ [39] @ str '' or '' @
                  [39] @ str ''assets/lang'' @ [39] @ str '' directory from current path.''],
      exit_status = 1, uncaught = None\<rparr> \<and>
   exit_status (main sorted_list_of_set (str ''/proj'')
     \<lparr>src_node = Some (Dir []),
      lang_node = Some (Inr [(str ''en.json'', Inr (JObject [(str ''unused'', JNull)]))])\<rparr>) = 0 \<and>
   uncaught (main sorted_list_of_set (str ''/proj'')
     \<lparr>src_node = Some (Dir []),
      lang_node = Some (Inr [(str ''en.json'', Inr (JObject [(str ''unused'', JNull)]))])\<rparr>) = None"
proof
  have "src_node \<lparr>src_node = None, lang_node = Some (Inr [])\<rparr> = None \<or>
      lang_node \<lparr>src_node = None, lang_node = Some (Inr [])\<rparr> = None"
    by simp
  note exit_status_spec [of "\<lparr>src_node = None, lang_node = Some (Inr [])\<rparr>"
      sorted_list_of_set "str ''/proj''", THEN conjunct1, rule_format, OF this]
  then show "main sorted_list_of_set (str ''/proj'') \<lparr>src_node = None, lang_node = Some (Inr [])\<rparr> =
     \<lparr>stdout = [str ''Error: Could not find '' @ [39] @ str ''src'' @ [39] @ str '' or '' @
                  [39] @ str ''assets/lang'' @ [39] @ str '' directory from current path.''],
      exit_status = 1, uncaught = None\<rparr>"
    by (simp add: not_found_line_def)
next
  let ?w = "\<lparr>src_node = Some (Dir []),
      lang_node = Some (Inr [(str ''en.json'', Inr (JObject [(str ''unused'', JNull)]))])\<rparr>"
  have "src_node ?w = Some (Dir []) \<and>
      lang_node ?w = Some (Inr [(str ''en.json'', Inr (JObject [(str ''unused'', JNull)]))]) \<and>
      (\<forall>dir name e. file_at (path_join (str ''/proj'') (str ''src'')) (Dir []) dir name (Inl e) \<and>
          endswith name (str ''.rs'') \<longrightarrow>
          encodable (str ''Error reading '' @ path_join dir name @ str '': '' @ e)) \<and>
      (\<forall>f r. (f, r) \<in> set [(str ''en.json'', Inr (JObject [(str ''unused'', JNull)]))] \<and>
          endswith f (str ''.json'') \<longrightarrow>
          encodable f \<and> (\<forall>e. r = Inl e \<longrightarrow> encodable e))"
    by (auto simp: walk_file_at [symmetric] encodable_def is_surrogate_def)
  note exit_status_spec [of ?w sorted_list_of_set "str ''/proj''",
      THEN conjunct2, THEN conjunct2, THEN spec, THEN spec, THEN mp, OF this]
  then show "exit_status (main sorted_list_of_set (str ''/proj'') ?w) = 0 \<and>
      uncaught (main sorted_list_of_set (str ''/proj'') ?w) = None" .
qed

text \<open>
  C6 as stated fails: when the localization directory exists and cannot be listed (the
  user may not read it; the same happens when the path is a regular file), both paths
  exist, the source tree is scanned and the first line is printed, and then the
  exception of \<^verbatim>\<open>os.listdir\<close> ends the process with status 1.
\<close>

theorem unlistable_lang_dir_counterexample:
  "src_node \<lparr>src_node = Some (Dir []), lang_node = Some (Inl (str ''[Errno 13] Permission denied''))\<rparr> \<noteq> None \<and>
   lang_node \<lparr>src_node = Some (Dir []), lang_node = Some (Inl (str ''[Errno 13] Permission denied''))\<rparr> \<noteq> None \<and>
   main sorted_list_of_set (str ''/proj'')
     \<lparr>src_node = Some (Dir []), lang_node = Some (Inl (str ''[Errno 13] Permission denied''))\<rparr> =
     \<lparr>stdout = [str ''--- [Found 0 unique keys in Rust source code] ---''], exit_status = 1,
      uncaught = Some (str ''[Errno 13] Permission denied'')\<rparr>"
  by (simp add: run_defs show_nat_Suc_Suc del: add_2_eq_Suc add_2_eq_Suc')

text \<open>
  C7.  No turn of the loop over the localization files changes \<open>used_keys\<close>, whether
  it ends with an exception or not, so the loop ends with the set it started with.  When
  the one call of \<open>find_tr_keys\<close> returns the set \<open>keys\<close>, the output of
  \<open>check_langs\<close> is what that call printed, the line with the number of elements of
  \<open>keys\<close>, and the sections of the localization files up to the first one that an
  exception leaves, each of them the section for this same set \<open>keys\<close>.  When the call
  raises, nothing but its output is printed.
\<close>

theorem used_keys_fixed:
  "used_keys (fst (check_lang_file it f st)) = used_keys st \<and>
   used_keys (fst (lang_loop it fs st)) = used_keys st \<and>
   (\<forall>printed keys. find_tr_keys src_dir tree = (printed, Inr keys) \<longrightarrow>
      check_langs it src_dir tree (Inr entries) =
        (let files = filter (\<lambda>(f, r). endswith f (str ''.json'')) entries;
             quiet = (\<lambda>f. snd (file_section it keys f) = None)
         in (printed @ found_line (card keys) #
               concat (map (\<lambda>f. fst (file_section it keys f))
                 (takeWhile quiet files @ take 1 (dropWhile quiet files))),
             case dropWhile quiet files of
               [] \<Rightarrow> None
             | f # fs' \<Rightarrow> snd (file_section it keys f)))) \<and>
   (\<forall>printed x. find_tr_keys src_dir tree = (printed, Inl x) \<longrightarrow>
      check_langs it src_dir tree listing = (printed, Some x))"
proof (intro conjI allI impI)
  show "used_keys (fst (check_lang_file it f st)) = used_keys st"
    by (rule used_keys_check_lang_file)
  show "used_keys (fst (lang_loop it fs st)) = used_keys st"
    by (rule used_keys_lang_loop)
next
  fix printed keys
  assume ft: "find_tr_keys src_dir tree = (printed, Inr keys)"
  show "check_langs it src_dir tree (Inr entries) =
        (let files = filter (\<lambda>(f, r). endswith f (str ''.json'')) entries;
             quiet = (\<lambda>f. snd (file_section it keys f) = None)
         in (printed @ found_line (card keys) #
               concat (map (\<lambda>f. fst (file_section it keys f))
                 (takeWhile quiet files @ take 1 (dropWhile quiet files))),
             case dropWhile quiet files of
               [] \<Rightarrow> None
             | f # fs' \<Rightarrow> snd (file_section it keys f)))"
    unfolding check_langs_eq ft lang_loop_eq Let_def by (simp cong: list.case_cong)
next
  fix printed x
  assume "find_tr_keys src_dir tree = (printed, Inl x)"
  then show "check_langs it src_dir tree listing = (printed, Some x)"
    unfolding check_langs_eq by simp
qed

text \<open>
  A run with one key in the source and two localization files.
\<close>

theorem used_keys_fixed_witness:
  "check_langs sorted_list_of_set (str ''src'')
     (Dir [(str ''lib.rs'', File (Inr (str ''t.tr('' @ [34] @ str ''k'' @ [34, 41])))])
     (Inr [(str ''de.json'', Inr (JObject [])),
           (str ''en.json'', Inr (JObject [(str ''k'', JNull)]))]) =
     ([str ''--- [Found 1 unique keys in Rust source code] ---'',
       [10] @ str ''Checking: de.json'',
       str ''  '' @ [10060] @ str '' Missing translations (Used in code but NOT in JSON):'',
       str ''    - k'',
       str ''  '' @ [9989] @ str '' No orphan keys.'',
       [10] @ str ''Checking: en.json'',
       str ''  '' @ [9989] @ str '' No missing keys.'',
       str ''  '' @ [9989] @ str '' No orphan keys.''], None)"
proof -
  let ?T = "Dir [(str ''lib.rs'', File (Inr (str ''t.tr('' @ [34] @ str ''k'' @ [34, 41])))]"
  have a: "find_tr_keys (str ''src'') ?T = ([], Inr {str ''k''})"
    by (simp add: run_defs)
  note used_keys_fixed [where src_dir = "str ''src''" and tree = ?T and it = sorted_list_of_set
      and entries = "[(str ''de.json'', Inr (JObject [])),
           (str ''en.json'', Inr (JObject [(str ''k'', JNull)]))]",
      THEN conjunct2, THEN conjunct2, THEN conjunct1, rule_format, OF a, unfolded Let_def]
  then show ?thesis by (simp add: run_defs)
qed

text \<open>
  C8 (amended).  When no file of the source tree has the extension \<^verbatim>\<open>.rs\<close>, or no
  readable file has an occurrence of the key pattern anywhere in its text and the error
  lines of the unreadable files with the extension can be encoded, \<open>find_tr_keys\<close>
  returns the empty set.  The section of a localization file that parses to an object,
  and whose name and keys hold no lone surrogate, then says that no key is missing and
  lists all keys of the object, sorted, as orphans (or says that there are none when
  the object is empty).
\<close>

theorem empty_used_keys_all_orphans:
  assumes "iter_ok it"
    and "(\<forall>dir name r. file_at directory tree dir name r \<longrightarrow> \<not> endswith name (str ''.rs'')) \<or>
         ((\<forall>dir name text pre s k r.
             file_at directory tree dir name (Inr text) \<and> text = pre @ s \<longrightarrow> \<not> tr_call s k r) \<and>
          (\<forall>dir name e. file_at directory tree dir name (Inl e) \<and> endswith name (str ''.rs'') \<longrightarrow>
             encodable (str ''Error reading '' @ path_join dir name @ str '': '' @ e)))"
    and "encodable lang_file" and "list_all encodable (map fst kvs)"
  shows "(\<exists>printed. find_tr_keys directory tree = (printed, Inr {})) \<and>
     file_section it {} (lang_file, Inr (JObject kvs)) =
       (checking_line lang_file # no_missing_line #
        (if kvs = [] then [no_orphan_line]
         else orphan_header #
              map (\<lambda>k. str ''    - '' @ k) (sorted_list_of_set (set (map fst kvs)))),
        None)"
proof
  have ok: "encodable (error_reading (path_join dir name) e)"
    if "file_at directory tree dir name (Inl e)" "endswith name (str ''.rs'')" for dir name e
    using assms(2) that unfolding error_reading_def by blast
  from find_tr_keys_returns [of directory tree, OF ok]
  obtain printed where ft: "find_tr_keys directory tree =
      (printed, Inr {k. \<exists>dir name text. file_at directory tree dir name (Inr text) \<and>
          endswith name (str ''.rs'') \<and> k \<in> set (findall text)})"
    by blast
  have "{k. \<exists>dir name text. file_at directory tree dir name (Inr text) \<and>
          endswith name (str ''.rs'') \<and> k \<in> set (findall text)} = {}"
    using assms(2) unfolding set_findall by (auto dest: found_occurrence)
  with ft show "\<exists>printed. find_tr_keys directory tree = (printed, Inr {})" by auto
next
  have b: "bullet = (\<lambda>k. str ''    - '' @ k)"
    by (rule ext) (simp add: bullet_def)
  let ?lines = "no_missing_line #
        (if kvs = [] then [no_orphan_line]
         else orphan_header # map bullet (sorted_list_of_set (set (map fst kvs))))"
  have lines: "(if {} - set (map fst kvs) = {} then [no_missing_line]
         else missing_header # map bullet (sorted_list_of_set ({} - set (map fst kvs)))) @
        (if set (map fst kvs) - {} = {} then [no_orphan_line]
         else orphan_header # map bullet (sorted_list_of_set (set (map fst kvs) - {}))) = ?lines"
    by simp
  have "list_all encodable ?lines"
    using assms(4) by (auto simp: list_all_iff encodable_fixed_lines encodable_bullet)
  then have tw: "takeWhile encodable ?lines = ?lines" and dw: "dropWhile encodable ?lines = []"
    by (simp_all add: list_all_iff)
  have "file_section it {} (lang_file, Inr (JObject kvs)) = (checking_line lang_file # ?lines, None)"
    using file_section_parsed [OF assms(1) _ assms(3), of "{}" "JObject kvs" "map fst kvs"]
    unfolding Let_def lines tw dw by simp
  then show "file_section it {} (lang_file, Inr (JObject kvs)) =
       (checking_line lang_file # no_missing_line #
        (if kvs = [] then [no_orphan_line]
         else orphan_header #
              map (\<lambda>k. str ''    - '' @ k) (sorted_list_of_set (set (map fst kvs)))),
        None)"
    unfolding b .
qed

text \<open>
  A source tree whose only file has another extension, and a localization file with
  two keys.
\<close>

theorem empty_used_keys_all_orphans_witness:
  "(\<exists>printed. find_tr_keys (str ''src'')
      (Dir [(str ''notes.txt'', File (Inr (str ''t.tr('' @ [34] @ str ''k'' @ [34, 41])))]) =
      (printed, Inr {})) \<and>
   file_section sorted_list_of_set {}
     (str ''en.json'', Inr (JObject [(str ''b'', JNull), (str ''a'', JNull)])) =
     ([[10] @ str ''Checking: en.json'',
       str ''  '' @ [9989] @ str '' No missing keys.'',
       str ''  '' @ [9888, 65039] @ str '' Orphan keys (In JSON but NOT used in code):'',
       str ''    - a'', str ''    - b''], None)"
proof -
  let ?tree = "Dir [(str ''notes.txt'', File (Inr (str ''t.tr('' @ [34] @ str ''k'' @ [34, 41])))]"
  have "\<forall>dir name r. file_at (str ''src'') ?tree dir name r \<longrightarrow> \<not> endswith name (str ''.rs'')"
    by (auto simp: walk_file_at [symmetric] endswith_def)
  then have h: "(\<forall>dir name r. file_at (str ''src'') ?tree dir name r \<longrightarrow>
        \<not> endswith name (str ''.rs'')) \<or>
      ((\<forall>dir name text pre s k r.
            file_at (str ''src'') ?tree dir name (Inr text) \<and> text = pre @ s \<longrightarrow> \<not> tr_call s k r) \<and>
       (\<forall>dir name e. file_at (str ''src'') ?tree dir name (Inl e) \<and> endswith name (str ''.rs'') \<longrightarrow>
          encodable (str ''Error reading '' @ path_join dir name @ str '': '' @ e)))"
    by (rule disjI1)
  have e1: "encodable (str ''en.json'')" by (simp add: encodable_def is_surrogate_def)
  have e2: "list_all encodable (map fst [(str ''b'', JNull), (str ''a'', JNull)])"
    by (simp add: encodable_def is_surrogate_def)
  note empty_used_keys_all_orphans [OF iter_ok_sorted_list_of_set h e1 e2]
  then show ?thesis
    by (auto simp: checking_line_def no_missing_line_def orphan_header_def)
qed

text \<open>
  C8 as stated fails: with an empty source tree, a localization file with the keys
  \<^verbatim>\<open>"\ud800"\<close> and \<^verbatim>\<open>a\<close> parses, but the line for the first key cannot be encoded:
  the list of orphans stops after \<^verbatim>\<open>a\<close> and an error line follows.
\<close>

theorem orphans_cut_short_counterexample:
  "find_tr_keys (str ''src'') (Dir []) = ([], Inr {}) \<and>
   file_section sorted_list_of_set {}
     (str ''en.json'', Inr (JObject [([55296], JNull), (str ''a'', JNull)])) =
     ([[10] @ str ''Checking: en.json'',
       str ''  '' @ [9989] @ str '' No missing keys.'',
       str ''  '' @ [9888, 65039] @ str '' Orphan keys (In JSON but NOT used in code):'',
       str ''    - a'',
       str ''Error checking en.json: '' @ [39] @ str ''utf-8'' @ [39] @ str '' codec can'' @
         [39] @ str ''t encode character '' @ [39, 92] @ str ''ud800'' @ [39] @
         str '' in position 6: surrogates not allowed''], None)"
  by (simp add: run_defs show_nat_Suc_Suc del: add_2_eq_Suc add_2_eq_Suc')

text \<open>
  C9.  Two runs on the same directories differ at most in the order in which their sets
  are iterated; the iteration order has no effect on the run: the output, the exit
  status and the exception are the same.
\<close>

theorem output_independent_of_iteration_order:
  assumes "iter_ok it1" and "iter_ok it2"
  shows "main it1 cwd w = main it2 cwd w"
  unfolding main_def check_langs_iter [OF assms] by (rule refl)

text \<open>
  One run iterates its sets in ascending order, the other in descending order.
\<close>

theorem output_independent_of_iteration_order_witness:
  "main sorted_list_of_set (str ''/proj'')
     \<lparr>src_node = Some (Dir [(str ''lib.rs'', File (Inr (str ''t.tr('' @ [34] @ str ''k'' @ [34, 41])))]),
      lang_node = Some (Inr [(str ''en.json'', Inr (JObject [(str ''b'', JNull), (str ''a'', JNull)]))])\<rparr> =
   main (\<lambda>S. rev (sorted_list_of_set S)) (str ''/proj'')
     \<lparr>src_node = Some (Dir [(str ''lib.rs'', File (Inr (str ''t.tr('' @ [34] @ str ''k'' @ [34, 41])))]),
      lang_node = Some (Inr [(str ''en.json'', Inr (JObject [(str ''b'', JNull), (str ''a'', JNull)]))])\<rparr>"
  by (rule output_independent_of_iteration_order [OF iter_ok_sorted_list_of_set iter_ok_rev])

text \<open>
  C10.  The two quote characters around the key are matched independently: the text
  \<^verbatim>\<open>.tr("key')\<close>, which opens with a double quote and closes with a single quote, is a
  match, and a source file with that text yields the key \<^verbatim>\<open>key\<close>.
\<close>

theorem mismatched_quotes_match:
  "findall (str ''.tr('' @ [34] @ str ''key'' @ [39] @ str '')'') = [str ''key''] \<and>
   find_tr_keys (str ''src'')
     (Dir [(str ''lib.rs'',
            File (Inr (str ''.tr('' @ [34] @ str ''key'' @ [39] @ str '')'')))]) =
     ([], Inr {str ''key''})"
  by (simp add: run_defs)

end
